theory Spec2Isabelle
  imports Main "HOL-Library.Sublist" "HOL-Library.Multiset"
begin

section \<open>Strings: the JavaScript and SQL primitives used by \<open>database.ts\<close>\<close>

text \<open>
  \<open>String.prototype.split(sep)\<close> with a one-character separator: the text is cut at
  every occurrence of the separator; the empty string gives one empty part.
\<close>

fun split :: "char \<Rightarrow> string \<Rightarrow> string list" where
  "split sep [] = [[]]"
| "split sep (c # cs) =
     (if c = sep then [] # split sep cs
      else (case split sep cs of
              [] \<Rightarrow> [[c]]
            | p # ps \<Rightarrow> (c # p) # ps))"

text \<open>
  \<open>String.prototype.replace(pattern, replacement)\<close> with a string pattern: only the
  first occurrence is replaced (the replacements used by the source hold no \<open>$\<close>).
\<close>

fun replace :: "string \<Rightarrow> string \<Rightarrow> string \<Rightarrow> string" where
  "replace pat rep [] = (if pat = [] then rep else [])"
| "replace pat rep (c # cs) =
     (if prefix pat (c # cs) then rep @ drop (length pat) (c # cs)
      else c # replace pat rep cs)"

text \<open>
  SQL \<open>POSITION(sub IN s)\<close>: the 1-based index of the first occurrence of \<open>sub\<close> in
  \<open>s\<close>, and 0 when there is none; the empty string is found at position 1.
\<close>

fun position :: "string \<Rightarrow> string \<Rightarrow> nat" where
  "position sub [] = (if sub = [] then 1 else 0)"
| "position sub (c # cs) =
     (if prefix sub (c # cs) then 1
      else (case position sub cs of 0 \<Rightarrow> 0 | Suc n \<Rightarrow> Suc (Suc n)))"

text \<open>SQL \<open>GREATEST\<close> over integers (the name is a binder of HOL, hence lower case).\<close>

fun greatest :: "int list \<Rightarrow> int" where
  "greatest [] = 0"
| "greatest [x] = x"
| "greatest (x # y # ys) = max x (greatest (y # ys))"

text \<open>
  Reordering a list by a list of positions: the element at the first position (modulo the
  number of elements) comes first, the rest is reordered by the remaining positions, and
  what is left when the positions run out stays as it is. Every reordering of a list is
  obtained from some list of positions, and nothing but reorderings.
\<close>

fun arrange :: "nat list \<Rightarrow> 'a list \<Rightarrow> 'a list" where
  "arrange [] xs = xs"
| "arrange (n # ns) xs =
     (if xs = [] then []
      else xs ! (n mod length xs)
           # arrange ns (take (n mod length xs) xs @ drop (Suc (n mod length xs)) xs))"

section \<open>Data model\<close>

text \<open>The \<open>{ tableName, alias }\<close> objects passed to \<open>suggestJoinExpressions\<close>.\<close>

record table_ref =
  tableName :: string
  "alias" :: string

datatype join_type = INNER_JOIN | LEFT_JOIN

record suggestion =
  joinType :: join_type
  expression :: string
  description :: string
  score :: int

text \<open>The CTE \<open>inputs\<close>: the six query parameters \<open>$1 .. $6\<close>.\<close>

record inputs =
  left_schema :: string
  left_table :: string
  left_alias :: string
  right_schema :: string
  right_table :: string
  right_alias :: string

text \<open>
  The catalog views read by the queries of \<open>database.ts\<close>, with the columns the queries
  use: \<open>information_schema.table_constraints\<close>, \<open>key_column_usage\<close>,
  \<open>constraint_column_usage\<close>, and \<open>pg_tables\<close> (schemaname, tablename). SQL leaves open
  the order in which the server hands out the rows of a \<open>UNION ALL\<close>; \<open>row_order\<close> is
  the server's choice for a query, a list of positions read by \<open>arrange\<close> below.
\<close>

record table_constraint =
  tc_constraint_name :: string
  tc_table_schema :: string
  tc_table_name :: string
  tc_constraint_type :: string

record key_column =
  kcu_constraint_name :: string
  kcu_column_name :: string

record constraint_column =
  ccu_constraint_name :: string
  ccu_table_schema :: string
  ccu_table_name :: string
  ccu_column_name :: string

record database =
  table_constraints :: "table_constraint list"
  key_column_usage :: "key_column list"
  constraint_column_usage :: "constraint_column list"
  pg_tables :: "(string \<times> string) list"
  row_order :: "inputs \<Rightarrow> nat list"

text \<open>A row of the common table expressions \<open>l\<close> and \<open>r\<close>: one foreign-key edge.\<close>

record fk_row =
  table_schema :: string
  table_name :: string
  column_name :: string
  referenced_schema :: string
  referenced_table :: string
  referenced_column :: string
  constraint_name :: string

text \<open>A row of the query's result.\<close>

record query_row =
  generated_sql :: string
  priority :: int
  join_type :: string
  row_description :: string

section \<open>Parsing a table identifier\<close>

text \<open>
  The three lines shared by \<open>getTableInfo\<close> (lines 57--59) and
  \<open>findJoinsBetweenTables\<close> (lines 468--474):
  \<^verbatim>\<open>parts = tableName.split("."); schema = parts.length === 2 ? parts[0] : "public";
  table = parts.length === 2 ? parts[1] : tableName\<close>.
\<close>

definition parseTableName :: "string \<Rightarrow> string \<times> string" where
  "parseTableName name =
     (let parts = split (CHR ''.'') name in
      (if length parts = 2 then parts ! 0 else ''public'',
       if length parts = 2 then parts ! 1 else name))"

text \<open>
  The existence check of \<open>getTableInfo\<close> (lines 62--71): the table is looked up in
  \<open>pg_tables\<close> by schema and name, and \<open>null\<close> is returned when no row is found.
\<close>

definition tableExists :: "database \<Rightarrow> string \<Rightarrow> bool" where
  "tableExists db name =
     (let (schemaName, actualTableName) = parseTableName name in
      filter (\<lambda>(s, t). s = schemaName \<and> t = actualTableName) (pg_tables db) \<noteq> [])"

section \<open>The join query of \<open>findJoinsBetweenTables\<close>\<close>

text \<open>
  The CTEs \<open>l\<close> and \<open>r\<close>: the foreign-key constraints of one table, joined with their
  key columns and referenced columns on the constraint name alone, as the query does.
\<close>

definition fk_rows :: "database \<Rightarrow> string \<Rightarrow> string \<Rightarrow> fk_row list" where
  "fk_rows db sch tab =
     [\<lparr>table_schema = tc_table_schema tc, table_name = tc_table_name tc,
       column_name = kcu_column_name kcu,
       referenced_schema = ccu_table_schema ccu, referenced_table = ccu_table_name ccu,
       referenced_column = ccu_column_name ccu,
       constraint_name = tc_constraint_name tc\<rparr>.
      tc \<leftarrow> table_constraints db, kcu \<leftarrow> key_column_usage db,
      ccu \<leftarrow> constraint_column_usage db,
      tc_constraint_name tc = kcu_constraint_name kcu,
      ccu_constraint_name ccu = tc_constraint_name tc,
      tc_constraint_type tc = ''FOREIGN KEY'',
      tc_table_schema tc = sch,
      tc_table_name tc = tab]"

text \<open>\<open>CASE WHEN s = 'public' THEN '' ELSE s || '.' END\<close>\<close>

definition schema_prefix :: "string \<Rightarrow> string" where
  "schema_prefix s = (if s = ''public'' then [] else s @ ''.'')"

text \<open>\<open>CASE WHEN t = a THEN '' ELSE ' ' || a END\<close>\<close>

definition alias_suffix :: "string \<Rightarrow> string \<Rightarrow> string" where
  "alias_suffix t a = (if t = a then [] else '' '' @ a)"

text \<open>Case 1 of the query: both tables reference the same table and column.\<close>

definition shared_row :: "inputs \<Rightarrow> fk_row \<Rightarrow> fk_row \<Rightarrow> query_row" where
  "shared_row inp l r =
     \<lparr>generated_sql =
        ''LEFT JOIN '' @ schema_prefix (table_schema r) @ table_name r
        @ alias_suffix (table_name r) (right_alias inp)
        @ '' ON '' @ left_alias inp @ ''.'' @ column_name l
        @ '' = '' @ right_alias inp @ ''.'' @ column_name r,
      priority =
        greatest [if position (right_alias inp) (column_name r) > 0 then 90 else 0,
                  if position (left_alias inp) (column_name l) > 0 then 90 else 0,
                  85],
      join_type = ''LEFT JOIN'',
      row_description =
        ''Join through shared reference to '' @ referenced_table l
        @ '' (FK: '' @ constraint_name l @ '', '' @ constraint_name r @ '')''\<rparr>"

definition case1 :: "inputs \<Rightarrow> fk_row list \<Rightarrow> fk_row list \<Rightarrow> query_row list" where
  "case1 inp ls rs =
     [shared_row inp l r. l \<leftarrow> ls, r \<leftarrow> rs,
      referenced_schema l = referenced_schema r
      \<and> referenced_table l = referenced_table r
      \<and> referenced_column l = referenced_column r]"

text \<open>Case 2 of the query: the left table references the right table.\<close>

definition direct_row :: "inputs \<Rightarrow> fk_row \<Rightarrow> query_row" where
  "direct_row inp l =
     \<lparr>generated_sql =
        ''LEFT JOIN '' @ schema_prefix (referenced_schema l) @ referenced_table l
        @ alias_suffix (referenced_table l) (right_alias inp)
        @ '' ON '' @ left_alias inp @ ''.'' @ column_name l
        @ '' = '' @ right_alias inp @ ''.'' @ referenced_column l,
      priority =
        greatest [if position (right_alias inp) (column_name l) > 0 then 100 else 95, 95],
      join_type = ''LEFT JOIN'',
      row_description =
        ''Direct foreign key relationship from '' @ left_table inp @ '' to ''
        @ right_table inp @ '' (FK: '' @ constraint_name l @ '')''\<rparr>"

definition case2 :: "inputs \<Rightarrow> fk_row list \<Rightarrow> query_row list" where
  "case2 inp ls =
     [direct_row inp l. l \<leftarrow> ls,
      referenced_schema l = right_schema inp \<and> referenced_table l = right_table inp]"

text \<open>Case 3 of the query: the right table references the left table.\<close>

definition reverse_row :: "inputs \<Rightarrow> fk_row \<Rightarrow> query_row" where
  "reverse_row inp r =
     \<lparr>generated_sql =
        ''LEFT JOIN '' @ schema_prefix (referenced_schema r) @ table_name r
        @ alias_suffix (table_name r) (left_alias inp)
        @ '' ON '' @ right_alias inp @ ''.'' @ column_name r
        @ '' = '' @ left_alias inp @ ''.'' @ referenced_column r,
      priority =
        greatest [if position (left_alias inp) (column_name r) > 0 then 100 else 95, 95],
      join_type = ''LEFT JOIN'',
      row_description =
        ''Reverse foreign key relationship from '' @ right_table inp @ '' to ''
        @ left_table inp @ '' (FK: '' @ constraint_name r @ '')''\<rparr>"

definition case3 :: "inputs \<Rightarrow> fk_row list \<Rightarrow> query_row list" where
  "case3 inp rs =
     [reverse_row inp r. r \<leftarrow> rs,
      referenced_schema r = left_schema inp \<and> referenced_table r = left_table inp]"

text \<open>
  The whole query: the three cases under \<open>UNION ALL\<close>, handed out in the order the server
  chooses, then \<open>ORDER BY priority DESC\<close>; rows of equal priority stay in the server's
  order, so every order the sort allows is the result for some \<open>row_order\<close>.
\<close>

definition join_query :: "database \<Rightarrow> inputs \<Rightarrow> query_row list" where
  "join_query db inp =
     (let l = fk_rows db (left_schema inp) (left_table inp);
          r = fk_rows db (right_schema inp) (right_table inp)
      in sort_key (\<lambda>row. - priority row)
           (arrange (row_order db inp) (case1 inp l r @ case2 inp l @ case3 inp r)))"

section \<open>From result rows to suggestions\<close>

text \<open>
  The loop over \<open>result.rows\<close> (lines 614--637): a LEFT JOIN suggestion for every row,
  and an INNER JOIN variant, five points higher, when the score is at least 90.
  \<open>parseInt\<close> of an integer priority is that integer.
\<close>

definition leftSuggestion :: "query_row \<Rightarrow> suggestion" where
  "leftSuggestion row =
     \<lparr>joinType = LEFT_JOIN, expression = generated_sql row,
      description = row_description row, score = priority row\<rparr>"

definition innerSuggestion :: "query_row \<Rightarrow> suggestion" where
  "innerSuggestion row =
     \<lparr>joinType = INNER_JOIN,
      expression = replace ''LEFT JOIN'' ''INNER JOIN'' (generated_sql row),
      description = replace ''Left join'' ''Inner join'' (row_description row),
      score = priority row + 5\<rparr>"

fun rows_to_suggestions :: "query_row list \<Rightarrow> suggestion list" where
  "rows_to_suggestions [] = []"
| "rows_to_suggestions (row # rows) =
     leftSuggestion row
     # (if priority row \<ge> 90 then [innerSuggestion row] else [])
     @ rows_to_suggestions rows"

section \<open>The connection pool\<close>

text \<open>
  The pool holds the catalog it answers from; \<open>pool.connect()\<close> and \<open>client.query()\<close>
  may each reject. The state counts the clients acquired and released and logs the
  parameter lists of the queries sent.
\<close>

datatype error = ConnectError | QueryError

record pool =
  catalog :: database
  connect_ok :: bool
  query_ok :: bool

record pool_state =
  acquired :: nat
  released :: nat
  queries :: "string list list"

text \<open>The query parameters computed from the two table references (lines 468--474, 598--605).\<close>

definition queryInputs :: "table_ref \<Rightarrow> table_ref \<Rightarrow> inputs" where
  "queryInputs leftTable rightTable =
     (let (leftSchema, leftTableName) = parseTableName (tableName leftTable);
          (rightSchema, rightTableName) = parseTableName (tableName rightTable)
      in \<lparr>left_schema = leftSchema, left_table = leftTableName,
          left_alias = alias leftTable,
          right_schema = rightSchema, right_table = rightTableName,
          right_alias = alias rightTable\<rparr>)"

definition queryParams :: "inputs \<Rightarrow> string list" where
  "queryParams inp =
     [left_schema inp, left_table inp, left_alias inp,
      right_schema inp, right_table inp, right_alias inp]"

text \<open>
  \<open>findJoinsBetweenTables\<close>: a rejected \<open>connect\<close> leaves the state as it is; once a
  client is held, \<open>finally\<close> releases it whether the query resolves or rejects.
\<close>

definition findJoinsBetweenTables ::
  "pool \<Rightarrow> table_ref \<Rightarrow> table_ref \<Rightarrow> pool_state \<Rightarrow> (error + suggestion list) \<times> pool_state" where
  "findJoinsBetweenTables p leftTable rightTable st =
     (if \<not> connect_ok p then (Inl ConnectError, st)
      else
        let inp = queryInputs leftTable rightTable;
            st1 = st\<lparr>acquired := acquired st + 1\<rparr>;
            st2 = st1\<lparr>queries := queries st1 @ [queryParams inp]\<rparr>;
            st3 = st2\<lparr>released := released st2 + 1\<rparr>
        in if \<not> query_ok p then (Inl QueryError, st3)
           else (Inr (rows_to_suggestions (join_query (catalog p) inp)), st3))"

section \<open>\<open>suggestJoinExpressions\<close>\<close>

text \<open>The loop over \<open>existingTables\<close>: the first failure aborts the call.\<close>

fun collect ::
  "pool \<Rightarrow> table_ref list \<Rightarrow> table_ref \<Rightarrow> suggestion list \<Rightarrow> pool_state
   \<Rightarrow> (error + suggestion list) \<times> pool_state" where
  "collect p [] newTable suggestions st = (Inr suggestions, st)"
| "collect p (existingTable # rest) newTable suggestions st =
     (case findJoinsBetweenTables p existingTable newTable st of
        (Inl e, st') \<Rightarrow> (Inl e, st')
      | (Inr tableSuggestions, st') \<Rightarrow>
          collect p rest newTable (suggestions @ tableSuggestions) st')"

text \<open>\<open>Array.prototype.findIndex\<close>: the first index whose element satisfies the test.\<close>

fun findIndex :: "('a \<Rightarrow> bool) \<Rightarrow> 'a list \<Rightarrow> nat option" where
  "findIndex P [] = None"
| "findIndex P (x # xs) =
     (if P x then Some 0 else map_option Suc (findIndex P xs))"

text \<open>
  Lines 441--446: a stable sort by descending score, then the filter that keeps the
  element at \<open>index\<close> when \<open>index\<close> is the first position holding its expression.
\<close>

definition sortByScore :: "suggestion list \<Rightarrow> suggestion list" where
  "sortByScore xs = sort_key (\<lambda>s. - score s) xs"

definition filterFirst :: "suggestion list \<Rightarrow> suggestion list" where
  "filterFirst self =
     map snd
       (filter (\<lambda>(index, suggestion).
                  Some index = findIndex (\<lambda>s. expression s = expression suggestion) self)
          (enumerate 0 self))"

definition uniqueSuggestions :: "suggestion list \<Rightarrow> suggestion list" where
  "uniqueSuggestions suggestions = filterFirst (sortByScore suggestions)"

definition suggestJoinExpressions ::
  "pool \<Rightarrow> table_ref list \<Rightarrow> table_ref \<Rightarrow> pool_state
   \<Rightarrow> (error + suggestion list) \<times> pool_state" where
  "suggestJoinExpressions p existingTables newTable st =
     (case collect p existingTables newTable [] st of
        (Inl e, st') \<Rightarrow> (Inl e, st')
      | (Inr suggestions, st') \<Rightarrow> (Inr (uniqueSuggestions suggestions), st'))"

section \<open>Notions used to state the properties\<close>

text \<open>The candidates of one pair, and of a whole call before ranking.\<close>

definition pairCandidates :: "database \<Rightarrow> table_ref \<Rightarrow> table_ref \<Rightarrow> suggestion list" where
  "pairCandidates db leftTable rightTable =
     rows_to_suggestions (join_query db (queryInputs leftTable rightTable))"

definition allCandidates :: "database \<Rightarrow> table_ref list \<Rightarrow> table_ref \<Rightarrow> suggestion list" where
  "allCandidates db existingTables newTable =
     concat (map (\<lambda>existingTable. pairCandidates db existingTable newTable) existingTables)"

text \<open>Keeping the first element of every expression, by a list of the expressions seen.\<close>

fun keepFirst :: "string list \<Rightarrow> suggestion list \<Rightarrow> suggestion list" where
  "keepFirst seen [] = []"
| "keepFirst seen (x # xs) =
     (if expression x \<in> set seen then keepFirst seen xs
      else x # keepFirst (seen @ [expression x]) xs)"

text \<open>
  \<open>c\<close> has the join text of \<open>l\<close> with the keyword \<open>LEFT JOIN\<close> replaced by
  \<open>INNER JOIN\<close>.
\<close>

definition sameJoinText :: "suggestion \<Rightarrow> suggestion \<Rightarrow> bool" where
  "sameJoinText l c \<longleftrightarrow>
     prefix ''LEFT JOIN'' (expression l)
     \<and> expression c = ''INNER JOIN'' @ drop 9 (expression l)"

definition innerVariant :: "suggestion \<Rightarrow> suggestion \<Rightarrow> bool" where
  "innerVariant l c \<longleftrightarrow>
     joinType l = LEFT_JOIN \<and> joinType c = INNER_JOIN
     \<and> sameJoinText l c \<and> score c = score l + 5"

text \<open>The rationale names one of the three foreign-key rules.\<close>

definition fkBased :: "suggestion \<Rightarrow> bool" where
  "fkBased s \<longleftrightarrow>
     prefix ''Join through shared reference to '' (description s)
     \<or> prefix ''Direct foreign key relationship from '' (description s)
     \<or> prefix ''Reverse foreign key relationship from '' (description s)"

text \<open>
  A catalog is consistent when the tables that carry or are referenced by its constraints
  are listed in \<open>pg_tables\<close>.
\<close>

definition catalogConsistent :: "database \<Rightarrow> bool" where
  "catalogConsistent db \<longleftrightarrow>
     list_all (\<lambda>tc. (tc_table_schema tc, tc_table_name tc) \<in> set (pg_tables db))
       (table_constraints db)
     \<and> list_all (\<lambda>ccu. (ccu_table_schema ccu, ccu_table_name ccu) \<in> set (pg_tables db))
         (constraint_column_usage db)"

text \<open>
  The edges the query computes for a table reference (the rows of its CTE), an edge
  pointing at a table reference, and two edges pointing at the same schema, table and
  column.
\<close>

definition edgesOf :: "database \<Rightarrow> table_ref \<Rightarrow> fk_row list" where
  "edgesOf db t = (let (s, n) = parseTableName (tableName t) in fk_rows db s n)"

definition targets :: "fk_row \<Rightarrow> table_ref \<Rightarrow> bool" where
  "targets e t \<longleftrightarrow> (referenced_schema e, referenced_table e) = parseTableName (tableName t)"

definition sameTarget :: "fk_row \<Rightarrow> fk_row \<Rightarrow> bool" where
  "sameTarget l r \<longleftrightarrow>
     referenced_schema l = referenced_schema r
     \<and> referenced_table l = referenced_table r
     \<and> referenced_column l = referenced_column r"

text \<open>
  The foreign keys a database really has, one column each: the constraint's name, the
  table and column that carry it, and the table and column it references. PostgreSQL
  requires a constraint's name to be unique among the constraints of its table only, so
  two tables may each carry a constraint of the same name. The three views list every
  foreign key once: \<open>table_constraints\<close> with its table, \<open>key_column_usage\<close> with its
  column, \<open>constraint_column_usage\<close> with the table and column referenced.
\<close>

record foreign_key =
  fk_name :: string
  fk_schema :: string
  fk_table :: string
  fk_column :: string
  fk_ref_schema :: string
  fk_ref_table :: string
  fk_ref_column :: string

definition tcOf :: "foreign_key \<Rightarrow> table_constraint" where
  "tcOf k =
     \<lparr>tc_constraint_name = fk_name k, tc_table_schema = fk_schema k,
      tc_table_name = fk_table k, tc_constraint_type = ''FOREIGN KEY''\<rparr>"

definition kcuOf :: "foreign_key \<Rightarrow> key_column" where
  "kcuOf k = \<lparr>kcu_constraint_name = fk_name k, kcu_column_name = fk_column k\<rparr>"

definition ccuOf :: "foreign_key \<Rightarrow> constraint_column" where
  "ccuOf k =
     \<lparr>ccu_constraint_name = fk_name k, ccu_table_schema = fk_ref_schema k,
      ccu_table_name = fk_ref_table k, ccu_column_name = fk_ref_column k\<rparr>"

definition catalogOf :: "(string \<times> string) list \<Rightarrow> foreign_key list \<Rightarrow> database" where
  "catalogOf tables keys =
     \<lparr>table_constraints = map tcOf keys, key_column_usage = map kcuOf keys,
      constraint_column_usage = map ccuOf keys, pg_tables = tables,
      row_order = (\<lambda>inp. [])\<rparr>"

text \<open>The edge of a foreign key, as a row of the CTE should read.\<close>

definition edgeOf :: "foreign_key \<Rightarrow> fk_row" where
  "edgeOf k =
     \<lparr>table_schema = fk_schema k, table_name = fk_table k, column_name = fk_column k,
      referenced_schema = fk_ref_schema k, referenced_table = fk_ref_table k,
      referenced_column = fk_ref_column k, constraint_name = fk_name k\<rparr>"

text \<open>
  Two table references have no foreign-key relationship in a list of foreign keys: no key
  of one references the other, and no key of one references the same schema, table and
  column as a key of the other.
\<close>

definition keysOf :: "foreign_key list \<Rightarrow> table_ref \<Rightarrow> foreign_key list" where
  "keysOf keys t = filter (\<lambda>k. (fk_schema k, fk_table k) = parseTableName (tableName t)) keys"

definition references :: "foreign_key \<Rightarrow> table_ref \<Rightarrow> bool" where
  "references k t \<longleftrightarrow> (fk_ref_schema k, fk_ref_table k) = parseTableName (tableName t)"

definition sameReference :: "foreign_key \<Rightarrow> foreign_key \<Rightarrow> bool" where
  "sameReference k k' \<longleftrightarrow>
     fk_ref_schema k = fk_ref_schema k' \<and> fk_ref_table k = fk_ref_table k'
     \<and> fk_ref_column k = fk_ref_column k'"

definition noRelationship :: "foreign_key list \<Rightarrow> table_ref \<Rightarrow> table_ref \<Rightarrow> bool" where
  "noRelationship keys a b \<longleftrightarrow>
     list_all (\<lambda>k. \<not> references k b) (keysOf keys a)
     \<and> list_all (\<lambda>k. \<not> references k a) (keysOf keys b)
     \<and> list_all (\<lambda>k. list_all (\<lambda>k'. \<not> sameReference k k') (keysOf keys b)) (keysOf keys a)"

text \<open>
  The LEFT JOIN candidates of the three rules, written with the table references and the
  edges: \<open>leftTable\<close> is the existing table, \<open>rightTable\<close> the new one, and a column
  \<open>contains\<close> an alias when the alias is a contiguous part of it.
\<close>

definition sharedCandidate :: "table_ref \<Rightarrow> table_ref \<Rightarrow> fk_row \<Rightarrow> fk_row \<Rightarrow> suggestion" where
  "sharedCandidate leftTable rightTable l r =
     \<lparr>joinType = LEFT_JOIN,
      expression =
        ''LEFT JOIN '' @ schema_prefix (fst (parseTableName (tableName rightTable)))
        @ snd (parseTableName (tableName rightTable))
        @ alias_suffix (snd (parseTableName (tableName rightTable))) (alias rightTable)
        @ '' ON '' @ alias leftTable @ ''.'' @ column_name l
        @ '' = '' @ alias rightTable @ ''.'' @ column_name r,
      description =
        ''Join through shared reference to '' @ referenced_table l
        @ '' (FK: '' @ constraint_name l @ '', '' @ constraint_name r @ '')'',
      score =
        (if sublist (alias rightTable) (column_name r) \<or> sublist (alias leftTable) (column_name l)
         then 90 else 85)\<rparr>"

definition directCandidate :: "table_ref \<Rightarrow> table_ref \<Rightarrow> fk_row \<Rightarrow> suggestion" where
  "directCandidate leftTable rightTable l =
     \<lparr>joinType = LEFT_JOIN,
      expression =
        ''LEFT JOIN '' @ schema_prefix (fst (parseTableName (tableName rightTable)))
        @ snd (parseTableName (tableName rightTable))
        @ alias_suffix (snd (parseTableName (tableName rightTable))) (alias rightTable)
        @ '' ON '' @ alias leftTable @ ''.'' @ column_name l
        @ '' = '' @ alias rightTable @ ''.'' @ referenced_column l,
      description =
        ''Direct foreign key relationship from '' @ snd (parseTableName (tableName leftTable))
        @ '' to '' @ snd (parseTableName (tableName rightTable))
        @ '' (FK: '' @ constraint_name l @ '')'',
      score = (if sublist (alias rightTable) (column_name l) then 100 else 95)\<rparr>"

text \<open>
  The reverse candidate as the query renders it: the right table, under the schema of the
  left table, followed by the alias of the left table.
\<close>

definition reverseCandidate :: "table_ref \<Rightarrow> table_ref \<Rightarrow> fk_row \<Rightarrow> suggestion" where
  "reverseCandidate leftTable rightTable r =
     \<lparr>joinType = LEFT_JOIN,
      expression =
        ''LEFT JOIN '' @ schema_prefix (fst (parseTableName (tableName leftTable)))
        @ snd (parseTableName (tableName rightTable))
        @ alias_suffix (snd (parseTableName (tableName rightTable))) (alias leftTable)
        @ '' ON '' @ alias rightTable @ ''.'' @ column_name r
        @ '' = '' @ alias leftTable @ ''.'' @ referenced_column r,
      description =
        ''Reverse foreign key relationship from '' @ snd (parseTableName (tableName rightTable))
        @ '' to '' @ snd (parseTableName (tableName leftTable))
        @ '' (FK: '' @ constraint_name r @ '')'',
      score = (if sublist (alias leftTable) (column_name r) then 100 else 95)\<rparr>"

section \<open>Example schemas\<close>

definition foreignKey ::
  "string \<Rightarrow> string \<Rightarrow> string \<Rightarrow> string \<Rightarrow> string \<Rightarrow> database \<Rightarrow> database" where
  "foreignKey c t col rt rc db =
     db\<lparr>table_constraints := table_constraints db
          @ [\<lparr>tc_constraint_name = c, tc_table_schema = ''public'', tc_table_name = t,
               tc_constraint_type = ''FOREIGN KEY''\<rparr>],
        key_column_usage := key_column_usage db
          @ [\<lparr>kcu_constraint_name = c, kcu_column_name = col\<rparr>],
        constraint_column_usage := constraint_column_usage db
          @ [\<lparr>ccu_constraint_name = c, ccu_table_schema = ''public'', ccu_table_name = rt,
               ccu_column_name = rc\<rparr>]\<rparr>"

definition tablesOnly :: "string list \<Rightarrow> database" where
  "tablesOnly ts =
     \<lparr>table_constraints = [], key_column_usage = [], constraint_column_usage = [],
      pg_tables = map (\<lambda>t. (''public'', t)) ts, row_order = (\<lambda>inp. [])\<rparr>"

text \<open>
  The schema of the specification's scenario: \<open>users\<close>, \<open>orders\<close> with
  \<open>user_id\<close> referencing \<open>users.id\<close>, and \<open>order_items\<close> with
  \<open>order_id\<close> and \<open>user_id\<close> referencing \<open>orders.id\<close> and \<open>users.id\<close>.
\<close>

definition shop :: database where
  "shop =
     foreignKey ''oi_user'' ''order_items'' ''user_id'' ''users'' ''id''
       (foreignKey ''oi_order'' ''order_items'' ''order_id'' ''orders'' ''id''
          (foreignKey ''o_user'' ''orders'' ''user_id'' ''users'' ''id''
             (tablesOnly [''users'', ''orders'', ''order_items''])))"

text \<open>Two tables that reference each other through their \<open>id\<close> columns.\<close>

definition mutual :: database where
  "mutual =
     foreignKey ''b_a'' ''b'' ''id'' ''a'' ''id''
       (foreignKey ''a_b'' ''a'' ''id'' ''b'' ''id'' (tablesOnly [''a'', ''b'']))"

text \<open>
  Four tables and two foreign keys, \<open>t1.x\<close> to \<open>p.id\<close> and \<open>t2.y\<close> to \<open>q.id\<close>, both
  named \<open>fk\<close>.
\<close>

definition collideKeys :: "foreign_key list" where
  "collideKeys =
     [\<lparr>fk_name = ''fk'', fk_schema = ''public'', fk_table = ''t1'', fk_column = ''x'',
       fk_ref_schema = ''public'', fk_ref_table = ''p'', fk_ref_column = ''id''\<rparr>,
      \<lparr>fk_name = ''fk'', fk_schema = ''public'', fk_table = ''t2'', fk_column = ''y'',
       fk_ref_schema = ''public'', fk_ref_table = ''q'', fk_ref_column = ''id''\<rparr>]"

definition collide :: database where
  "collide =
     catalogOf [(''public'', ''t1''), (''public'', ''p''), (''public'', ''t2''), (''public'', ''q'')]
       collideKeys"

definition online :: "database \<Rightarrow> pool" where
  "online db = \<lparr>catalog = db, connect_ok = True, query_ok = True\<rparr>"

definition idle :: pool_state where
  "idle = \<lparr>acquired = 0, released = 0, queries = []\<rparr>"

definition tableRef :: "string \<Rightarrow> string \<Rightarrow> table_ref" where
  "tableRef n a = \<lparr>tableName = n, alias = a\<rparr>"

text \<open>
  The ranked answer to joining \<open>orders o\<close> to \<open>users u\<close> in the schema \<open>shop\<close>, and the
  state after a call that lists \<open>users u\<close> twice.
\<close>

definition usersOrdersRanked :: "suggestion list" where
  "usersOrdersRanked =
     [\<lparr>joinType = INNER_JOIN, expression = ''INNER JOIN orders u ON o.user_id = u.id'',
       description = ''Reverse foreign key relationship from orders to users (FK: o_user)'',
       score = 105\<rparr>,
      \<lparr>joinType = LEFT_JOIN, expression = ''LEFT JOIN orders u ON o.user_id = u.id'',
       description = ''Reverse foreign key relationship from orders to users (FK: o_user)'',
       score = 100\<rparr>]"

definition twoQueries :: pool_state where
  "twoQueries =
     \<lparr>acquired = 2, released = 2,
      queries = [[''public'', ''users'', ''u'', ''public'', ''orders'', ''o''],
                 [''public'', ''users'', ''u'', ''public'', ''orders'', ''o'']]\<rparr>"

text \<open>
  The ranked answer to joining \<open>order_items oi\<close> to \<open>users u\<close> and \<open>orders o\<close> in \<open>shop\<close>,
  its last element, and the state after the call.
\<close>

definition sharedUsers :: suggestion where
  "sharedUsers =
     \<lparr>joinType = LEFT_JOIN,
      expression = ''LEFT JOIN order_items oi ON o.user_id = oi.user_id'',
      description = ''Join through shared reference to users (FK: o_user, oi_user)'',
      score = 85\<rparr>"

definition orderItemsRanked :: "suggestion list" where
  "orderItemsRanked =
     [\<lparr>joinType = INNER_JOIN,
       expression = ''INNER JOIN order_items u ON oi.user_id = u.id'',
       description =
         ''Reverse foreign key relationship from order_items to users (FK: oi_user)'',
       score = 105\<rparr>,
      \<lparr>joinType = INNER_JOIN,
       expression = ''INNER JOIN order_items o ON oi.order_id = o.id'',
       description =
         ''Reverse foreign key relationship from order_items to orders (FK: oi_order)'',
       score = 105\<rparr>,
      \<lparr>joinType = LEFT_JOIN,
       expression = ''LEFT JOIN order_items u ON oi.user_id = u.id'',
       description =
         ''Reverse foreign key relationship from order_items to users (FK: oi_user)'',
       score = 100\<rparr>,
      \<lparr>joinType = LEFT_JOIN,
       expression = ''LEFT JOIN order_items o ON oi.order_id = o.id'',
       description =
         ''Reverse foreign key relationship from order_items to orders (FK: oi_order)'',
       score = 100\<rparr>,
      sharedUsers]"

definition orderItemsQueries :: pool_state where
  "orderItemsQueries =
     \<lparr>acquired = 2, released = 2,
      queries = [[''public'', ''users'', ''u'', ''public'', ''order_items'', ''oi''],
                 [''public'', ''orders'', ''o'', ''public'', ''order_items'', ''oi'']]\<rparr>"

text \<open>Two edges of \<open>shop\<close>, and the ranked answer to joining \<open>users u\<close> to \<open>orders o\<close>.\<close>

definition orderUser :: fk_row where
  "orderUser =
     \<lparr>table_schema = ''public'', table_name = ''orders'', column_name = ''user_id'',
      referenced_schema = ''public'', referenced_table = ''users'', referenced_column = ''id'',
      constraint_name = ''o_user''\<rparr>"

definition itemUser :: fk_row where
  "itemUser =
     \<lparr>table_schema = ''public'', table_name = ''order_items'', column_name = ''user_id'',
      referenced_schema = ''public'', referenced_table = ''users'', referenced_column = ''id'',
      constraint_name = ''oi_user''\<rparr>"

definition ordersUsersRanked :: "suggestion list" where
  "ordersUsersRanked =
     [\<lparr>joinType = INNER_JOIN, expression = ''INNER JOIN users u ON o.user_id = u.id'',
       description = ''Direct foreign key relationship from orders to users (FK: o_user)'',
       score = 105\<rparr>,
      \<lparr>joinType = LEFT_JOIN, expression = ''LEFT JOIN users u ON o.user_id = u.id'',
       description = ''Direct foreign key relationship from orders to users (FK: o_user)'',
       score = 100\<rparr>]"

text \<open>
  The answers in the schema \<open>mutual\<close> when both tables are given the alias \<open>t\<close>: joining
  \<open>b\<close> to \<open>a\<close>, and joining \<open>a\<close> to \<open>b\<close>.
\<close>

definition mutualAB :: "suggestion list" where
  "mutualAB =
     [\<lparr>joinType = INNER_JOIN, expression = ''INNER JOIN b t ON t.id = t.id'',
       description = ''Direct foreign key relationship from a to b (FK: a_b)'', score = 100\<rparr>,
      \<lparr>joinType = LEFT_JOIN, expression = ''LEFT JOIN b t ON t.id = t.id'',
       description = ''Direct foreign key relationship from a to b (FK: a_b)'', score = 95\<rparr>]"

definition mutualBA :: "suggestion list" where
  "mutualBA =
     [\<lparr>joinType = INNER_JOIN, expression = ''INNER JOIN a t ON t.id = t.id'',
       description = ''Direct foreign key relationship from b to a (FK: b_a)'', score = 100\<rparr>,
      \<lparr>joinType = LEFT_JOIN, expression = ''LEFT JOIN a t ON t.id = t.id'',
       description = ''Direct foreign key relationship from b to a (FK: b_a)'', score = 95\<rparr>]"

definition aToB :: fk_row where
  "aToB =
     \<lparr>table_schema = ''public'', table_name = ''a'', column_name = ''id'',
      referenced_schema = ''public'', referenced_table = ''b'', referenced_column = ''id'',
      constraint_name = ''a_b''\<rparr>"

text \<open>The answer to joining \<open>q b\<close> to \<open>t1 a\<close> in \<open>collide\<close>.\<close>

definition collideRanked :: "suggestion list" where
  "collideRanked =
     [\<lparr>joinType = INNER_JOIN, expression = ''INNER JOIN q b ON a.x = b.id'',
       description = ''Direct foreign key relationship from t1 to q (FK: fk)'', score = 100\<rparr>,
      \<lparr>joinType = INNER_JOIN, expression = ''INNER JOIN q b ON a.y = b.id'',
       description = ''Direct foreign key relationship from t1 to q (FK: fk)'', score = 100\<rparr>,
      \<lparr>joinType = LEFT_JOIN, expression = ''LEFT JOIN q b ON a.x = b.id'',
       description = ''Direct foreign key relationship from t1 to q (FK: fk)'', score = 95\<rparr>,
      \<lparr>joinType = LEFT_JOIN, expression = ''LEFT JOIN q b ON a.y = b.id'',
       description = ''Direct foreign key relationship from t1 to q (FK: fk)'', score = 95\<rparr>]"

section \<open>What a call returns\<close>

lemma findJoins_Inr:
  "findJoinsBetweenTables p l r st = (Inr out, st') \<Longrightarrow> out = pairCandidates (catalog p) l r"
  by (auto simp add: findJoinsBetweenTables_def pairCandidates_def Let_def split: if_splits)

lemma findJoins_online:
  "connect_ok p \<Longrightarrow> query_ok p \<Longrightarrow>
   fst (findJoinsBetweenTables p l r st) = Inr (pairCandidates (catalog p) l r)"
  by (simp add: findJoinsBetweenTables_def pairCandidates_def Let_def)

lemma collect_Inr:
  "collect p ex nt acc st = (Inr out, st') \<Longrightarrow> out = acc @ allCandidates (catalog p) ex nt"
proof (induction ex arbitrary: acc st)
  case Nil
  then show ?case by (simp add: allCandidates_def)
next
  case (Cons e ex)
  obtain res st1 where f: "findJoinsBetweenTables p e nt st = (res, st1)"
    by (cases "findJoinsBetweenTables p e nt st")
  show ?case
  proof (cases res)
    case (Inl err)
    then show ?thesis using Cons.prems f by simp
  next
    case (Inr ts)
    then have "collect p ex nt (acc @ ts) st1 = (Inr out, st')"
      using Cons.prems f by simp
    then have "out = (acc @ ts) @ allCandidates (catalog p) ex nt" by (rule Cons.IH)
    moreover have "ts = pairCandidates (catalog p) e nt"
      using f Inr findJoins_Inr by blast
    ultimately show ?thesis by (simp add: allCandidates_def)
  qed
qed

lemma collect_online:
  assumes "connect_ok p" "query_ok p"
  shows "fst (collect p ex nt acc st) = Inr (acc @ allCandidates (catalog p) ex nt)"
proof (induction ex arbitrary: acc st)
  case Nil
  show ?case by (simp add: allCandidates_def)
next
  case (Cons e ex)
  obtain res st1 where f: "findJoinsBetweenTables p e nt st = (res, st1)"
    by (cases "findJoinsBetweenTables p e nt st")
  then have "res = Inr (pairCandidates (catalog p) e nt)"
    using findJoins_online[OF assms, of e nt st] by simp
  then show ?case using f Cons.IH by (simp add: allCandidates_def)
qed

lemma suggest_Inr:
  assumes "suggestJoinExpressions p ex nt st = (Inr out, st')"
  shows "out = uniqueSuggestions (allCandidates (catalog p) ex nt)"
proof -
  obtain res st1 where c: "collect p ex nt [] st = (res, st1)"
    by (cases "collect p ex nt [] st")
  show ?thesis
  proof (cases res)
    case (Inl err)
    then show ?thesis using assms c by (simp add: suggestJoinExpressions_def)
  next
    case (Inr xs)
    then have "xs = [] @ allCandidates (catalog p) ex nt" using c collect_Inr by blast
    then show ?thesis using assms c Inr by (simp add: suggestJoinExpressions_def)
  qed
qed

lemma suggest_online:
  assumes "connect_ok p" "query_ok p"
  shows "fst (suggestJoinExpressions p ex nt st)
         = Inr (uniqueSuggestions (allCandidates (catalog p) ex nt))"
proof -
  obtain res st1 where c: "collect p ex nt [] st = (res, st1)"
    by (cases "collect p ex nt [] st")
  then have "res = Inr (allCandidates (catalog p) ex nt)"
    using collect_online[OF assms, of ex nt "[]" st] by simp
  then show ?thesis using c by (simp add: suggestJoinExpressions_def)
qed

section \<open>Sorting and removing duplicates\<close>

lemma keepFirst_cong_set:
  "set seen = set seen' \<Longrightarrow> keepFirst seen xs = keepFirst seen' xs"
proof (induction xs arbitrary: seen seen')
  case Nil
  show ?case by simp
next
  case (Cons x xs)
  have "set (seen @ [expression x]) = set (seen' @ [expression x])"
    using Cons.prems by simp
  then have "keepFirst (seen @ [expression x]) xs = keepFirst (seen' @ [expression x]) xs"
    by (rule Cons.IH)
  moreover have "keepFirst seen xs = keepFirst seen' xs"
    using Cons.prems by (rule Cons.IH)
  ultimately show ?case using Cons.prems by simp
qed

lemma findIndex_None: "findIndex P xs = None \<longleftrightarrow> (\<forall>x\<in>set xs. \<not> P x)"
  by (induction xs) auto

lemma findIndex_less: "findIndex P xs = Some i \<Longrightarrow> i < length xs"
  by (induction xs arbitrary: i) (auto split: if_splits)

lemma findIndex_append:
  "findIndex P (pre @ ys) =
     (case findIndex P pre of
        Some i \<Rightarrow> Some i
      | None \<Rightarrow> map_option (\<lambda>j. length pre + j) (findIndex P ys))"
proof (induction pre)
  case Nil
  show ?case by (cases "findIndex P ys") simp_all
next
  case (Cons a pre)
  show ?case
    by (cases "findIndex P pre"; cases "findIndex P ys") (simp_all add: Cons.IH)
qed

lemma findIndex_at_boundary:
  assumes "P x"
  shows "Some (length pre) = findIndex P (pre @ x # xs) \<longleftrightarrow> (\<forall>y\<in>set pre. \<not> P y)"
proof (cases "findIndex P pre")
  case None
  then show ?thesis using assms by (simp add: findIndex_append findIndex_None[symmetric])
next
  case (Some i)
  then have "i < length pre" by (rule findIndex_less)
  moreover from Some have "\<not> (\<forall>y\<in>set pre. \<not> P y)"
    using findIndex_None[of P pre] by simp
  ultimately show ?thesis using Some by (auto simp add: findIndex_append)
qed

lemma filterFirst_gen:
  "map snd
     (filter (\<lambda>(index, suggestion).
                Some index = findIndex (\<lambda>s. expression s = expression suggestion) (pre @ xs))
        (enumerate (length pre) xs))
   = keepFirst (map expression pre) xs"
proof (induction xs arbitrary: pre)
  case Nil
  show ?case by simp
next
  case (Cons x xs)
  have step: "map snd
     (filter (\<lambda>(index, suggestion).
                Some index = findIndex (\<lambda>s. expression s = expression suggestion) ((pre @ [x]) @ xs))
        (enumerate (length (pre @ [x])) xs))
   = keepFirst (map expression (pre @ [x])) xs"
    by (rule Cons.IH)
  have here: "Some (length pre) = findIndex (\<lambda>s. expression s = expression x) (pre @ x # xs)
      \<longleftrightarrow> expression x \<notin> set (map expression pre)"
  proof -
    have "Some (length pre) = findIndex (\<lambda>s. expression s = expression x) (pre @ x # xs)
      \<longleftrightarrow> (\<forall>y\<in>set pre. \<not> expression y = expression x)"
      by (rule findIndex_at_boundary) simp
    also have "\<dots> \<longleftrightarrow> expression x \<notin> set (map expression pre)"
      by (simp add: image_iff) metis
    finally show ?thesis .
  qed
  show ?case
  proof (cases "expression x \<in> set (map expression pre)")
    case True
    then have "Some (length pre) \<noteq> findIndex (\<lambda>s. expression s = expression x) (pre @ x # xs)"
      using here by blast
    moreover have "keepFirst (map expression pre @ [expression x]) xs
                   = keepFirst (map expression pre) xs"
      using True by (intro keepFirst_cong_set) auto
    ultimately show ?thesis using step True by (simp del: set_map)
  next
    case False
    then have "Some (length pre) = findIndex (\<lambda>s. expression s = expression x) (pre @ x # xs)"
      using here by blast
    then show ?thesis using step False by (simp del: set_map)
  qed
qed

lemma filterFirst_keepFirst: "filterFirst xs = keepFirst [] xs"
  using filterFirst_gen[of "[]" xs] by (simp add: filterFirst_def)

lemma keepFirst_subseq: "subseq (keepFirst seen xs) xs"
  by (induction xs arbitrary: seen) auto

lemma keepFirst_set: "set (keepFirst seen xs) \<subseteq> set xs"
  by (induction xs arbitrary: seen) auto

lemma keepFirst_unseen: "x \<in> set (keepFirst seen xs) \<Longrightarrow> expression x \<notin> set seen"
proof (induction xs arbitrary: seen)
  case Nil
  then show ?case by simp
next
  case (Cons a xs)
  show ?case
  proof (cases "expression a \<in> set seen")
    case True
    then show ?thesis using Cons by simp
  next
    case False
    then have "x = a \<or> x \<in> set (keepFirst (seen @ [expression a]) xs)"
      using Cons.prems by simp
    then show ?thesis
    proof
      assume "x = a"
      then show ?thesis using False by simp
    next
      assume "x \<in> set (keepFirst (seen @ [expression a]) xs)"
      then have "expression x \<notin> set (seen @ [expression a])" by (rule Cons.IH)
      then show ?thesis by simp
    qed
  qed
qed

lemma keepFirst_distinct: "distinct (map expression (keepFirst seen xs))"
  by (induction xs arbitrary: seen) (auto dest: keepFirst_unseen)

lemma keepFirst_sorted:
  "sorted_wrt R xs \<Longrightarrow> sorted_wrt R (keepFirst seen xs)"
proof (induction xs arbitrary: seen)
  case Nil
  show ?case by simp
next
  case (Cons x xs)
  then show ?case using keepFirst_set[of "seen @ [expression x]" xs] by auto
qed

lemma keepFirst_covers:
  assumes "sorted_wrt (\<lambda>a b. score b \<le> score a) xs" "c \<in> set xs" "expression c \<notin> set seen"
  shows "\<exists>k\<in>set (keepFirst seen xs). expression k = expression c \<and> score c \<le> score k"
  using assms
proof (induction xs arbitrary: seen)
  case Nil
  then show ?case by simp
next
  case (Cons x xs)
  show ?case
  proof (cases "expression x = expression c")
    case True
    then have "x \<in> set (keepFirst seen (x # xs))" using Cons.prems(3) by simp
    moreover have "score c \<le> score x" using Cons.prems(1,2) by auto
    ultimately show ?thesis using True by blast
  next
    case False
    then have c: "c \<in> set xs" using Cons.prems(2) by auto
    have s: "sorted_wrt (\<lambda>a b. score b \<le> score a) xs" using Cons.prems(1) by simp
    show ?thesis
    proof (cases "expression x \<in> set seen")
      case True
      then show ?thesis using Cons.IH[OF s c Cons.prems(3)] by simp
    next
      case False
      have "expression c \<notin> set (seen @ [expression x])"
        using Cons.prems(3) \<open>expression x \<noteq> expression c\<close> by auto
      from Cons.IH[OF s c this] show ?thesis using False by auto
    qed
  qed
qed

lemma sortByScore_sorted: "sorted_wrt (\<lambda>a b. score b \<le> score a) (sortByScore xs)"
proof -
  have "sorted (map (\<lambda>s. - score s) (sortByScore xs))"
    by (simp add: sortByScore_def)
  then show ?thesis by (simp add: sorted_map sorted_wrt_iff_nth_less)
qed

lemma sortByScore_set: "set (sortByScore xs) = set xs"
  by (simp add: sortByScore_def)

lemma sortByScore_stable:
  "filter (\<lambda>s. score s = k) (sortByScore xs) = filter (\<lambda>s. score s = k) xs"
  using sort_key_stable[of "\<lambda>s. - score s" "- k" xs] by (simp add: sortByScore_def)

lemma unique_distinct: "distinct (map expression (uniqueSuggestions xs))"
  by (simp add: uniqueSuggestions_def filterFirst_keepFirst keepFirst_distinct)

lemma unique_sorted: "sorted_wrt (\<lambda>a b. score b \<le> score a) (uniqueSuggestions xs)"
  by (simp add: uniqueSuggestions_def filterFirst_keepFirst keepFirst_sorted sortByScore_sorted)

lemma unique_set: "set (uniqueSuggestions xs) \<subseteq> set xs"
  using keepFirst_set[of "[]" "sortByScore xs"]
  by (simp add: uniqueSuggestions_def filterFirst_keepFirst sortByScore_set)

lemma unique_covers:
  assumes "c \<in> set xs"
  shows "\<exists>k\<in>set (uniqueSuggestions xs). expression k = expression c \<and> score c \<le> score k"
  using keepFirst_covers[OF sortByScore_sorted, of c xs "[]"] assms
  by (simp add: uniqueSuggestions_def filterFirst_keepFirst sortByScore_set)

lemma unique_stable:
  "subseq (filter (\<lambda>s. score s = k) (uniqueSuggestions xs)) (filter (\<lambda>s. score s = k) xs)"
proof -
  have "subseq (uniqueSuggestions xs) (sortByScore xs)"
    by (simp add: uniqueSuggestions_def filterFirst_keepFirst keepFirst_subseq)
  then have "subseq (filter (\<lambda>s. score s = k) (uniqueSuggestions xs))
                    (filter (\<lambda>s. score s = k) (sortByScore xs))"
    by (rule subseq_filter)
  then show ?thesis by (simp add: sortByScore_stable)
qed

section \<open>Splitting identifiers\<close>

lemma split_not_Nil: "split sep s \<noteq> []"
  by (induction s) (auto split: list.splits)

lemma split_no_sep: "sep \<notin> set s \<Longrightarrow> split sep s = [s]"
  by (induction s) auto

lemma split_at_first: "sep \<notin> set a \<Longrightarrow> split sep (a @ sep # b) = a # split sep b"
  by (induction a) auto

lemma length_split: "length (split sep s) = Suc (count_list s sep)"
proof (induction s)
  case Nil
  show ?case by simp
next
  case (Cons c s)
  then show ?case using split_not_Nil[of sep s] by (cases "split sep s") auto
qed

lemma count_one_decompose:
  assumes "count_list s sep = 1"
  shows "s = takeWhile (\<lambda>c. c \<noteq> sep) s @ sep # tl (dropWhile (\<lambda>c. c \<noteq> sep) s)
         \<and> sep \<notin> set (takeWhile (\<lambda>c. c \<noteq> sep) s)
         \<and> sep \<notin> set (tl (dropWhile (\<lambda>c. c \<noteq> sep) s))"
  using assms
proof (induction s)
  case Nil
  then show ?case by simp
next
  case (Cons c s)
  show ?case
  proof (cases "c = sep")
    case True
    then have "count_list s sep = 0" using Cons.prems by simp
    then have "sep \<notin> set s" by (simp add: count_list_0_iff)
    then show ?thesis using True by simp
  next
    case False
    then have "count_list s sep = 1" using Cons.prems by simp
    from Cons.IH[OF this] show ?thesis using False by auto
  qed
qed

section \<open>The shape of the candidates\<close>

lemma set_arrange: "set (arrange ns xs) = set xs"
proof (induction ns arbitrary: xs)
  case Nil
  show ?case by simp
next
  case (Cons n ns)
  show ?case
  proof (cases "xs = []")
    case True
    then show ?thesis by simp
  next
    case False
    let ?i = "n mod length xs"
    have i: "?i < length xs" using False by simp
    have "xs = take ?i xs @ xs ! ?i # drop (Suc ?i) xs" using i by (rule id_take_nth_drop)
    then have "set xs = insert (xs ! ?i) (set (take ?i xs @ drop (Suc ?i) xs))"
      by (metis Un_insert_right set_append list.simps(15))
    then show ?thesis using False Cons.IH[of "take ?i xs @ drop (Suc ?i) xs"] by simp
  qed
qed

lemma mset_arrange: "mset (arrange ns xs) = mset xs"
proof (induction ns arbitrary: xs)
  case Nil
  show ?case by simp
next
  case (Cons n ns)
  show ?case
  proof (cases "xs = []")
    case True
    then show ?thesis by simp
  next
    case False
    let ?i = "n mod length xs"
    have i: "?i < length xs" using False by simp
    have "xs = take ?i xs @ xs ! ?i # drop (Suc ?i) xs" using i by (rule id_take_nth_drop)
    then have "mset xs = mset (take ?i xs @ xs ! ?i # drop (Suc ?i) xs)" by simp
    then have "mset xs = add_mset (xs ! ?i) (mset (take ?i xs @ drop (Suc ?i) xs))" by simp
    then show ?thesis using False Cons.IH[of "take ?i xs @ drop (Suc ?i) xs"] by simp
  qed
qed

lemma set_rows_to_suggestions:
  "set (rows_to_suggestions rows)
   = leftSuggestion ` set rows \<union> innerSuggestion ` {row \<in> set rows. 90 \<le> priority row}"
  by (induction rows) auto

lemma join_query_kinds:
  assumes "row \<in> set (join_query db inp)"
  shows "(\<exists>l r. row = shared_row inp l r) \<or> (\<exists>l. row = direct_row inp l)
         \<or> (\<exists>r. row = reverse_row inp r)"
  using assms by (auto simp add: join_query_def Let_def set_arrange case1_def case2_def case3_def)

lemma shared_row_shape:
  "generated_sql (shared_row inp l r) = ''LEFT JOIN '' @ drop 10 (generated_sql (shared_row inp l r))"
  "priority (shared_row inp l r) \<in> {85, 90}"
  "prefix ''Join through shared reference to '' (row_description (shared_row inp l r))"
  by (simp_all add: shared_row_def)

lemma direct_row_shape:
  "generated_sql (direct_row inp l) = ''LEFT JOIN '' @ drop 10 (generated_sql (direct_row inp l))"
  "priority (direct_row inp l) \<in> {95, 100}"
  "prefix ''Direct foreign key relationship from '' (row_description (direct_row inp l))"
  by (simp_all add: direct_row_def)

lemma reverse_row_shape:
  "generated_sql (reverse_row inp r) = ''LEFT JOIN '' @ drop 10 (generated_sql (reverse_row inp r))"
  "priority (reverse_row inp r) \<in> {95, 100}"
  "prefix ''Reverse foreign key relationship from '' (row_description (reverse_row inp r))"
  by (simp_all add: reverse_row_def)

lemma replace_keyword:
  "replace ''LEFT JOIN'' ''INNER JOIN'' (''LEFT JOIN '' @ rest) = ''INNER JOIN '' @ rest"
  by simp

lemma replace_shared:
  "replace ''Left join'' ''Inner join'' (''Join through shared reference to '' @ rest)
   = ''Join through shared reference to '' @ replace ''Left join'' ''Inner join'' rest"
  by simp

lemma replace_direct:
  "replace ''Left join'' ''Inner join'' (''Direct foreign key relationship from '' @ rest)
   = ''Direct foreign key relationship from '' @ replace ''Left join'' ''Inner join'' rest"
  by simp

lemma replace_reverse:
  "replace ''Left join'' ''Inner join'' (''Reverse foreign key relationship from '' @ rest)
   = ''Reverse foreign key relationship from '' @ replace ''Left join'' ''Inner join'' rest"
  by simp


lemma join_query_shape:
  assumes "row \<in> set (join_query db inp)"
  shows "generated_sql row = ''LEFT JOIN '' @ drop 10 (generated_sql row)"
    and "priority row \<in> {85, 90, 95, 100}"
    and "prefix ''Join through shared reference to '' (row_description row)
         \<or> prefix ''Direct foreign key relationship from '' (row_description row)
         \<or> prefix ''Reverse foreign key relationship from '' (row_description row)"
    and "priority row < 90 \<Longrightarrow> prefix ''Join through shared reference to '' (row_description row)"
proof -
  from join_query_kinds[OF assms] consider
    l r where "row = shared_row inp l r" | l where "row = direct_row inp l"
    | r where "row = reverse_row inp r" by blast
  note kinds = this
  show "generated_sql row = ''LEFT JOIN '' @ drop 10 (generated_sql row)"
    using kinds shared_row_shape(1) direct_row_shape(1) reverse_row_shape(1) by cases simp_all
  show "priority row \<in> {85, 90, 95, 100}"
    using kinds shared_row_shape(2) direct_row_shape(2) reverse_row_shape(2) by cases auto
  show "prefix ''Join through shared reference to '' (row_description row)
         \<or> prefix ''Direct foreign key relationship from '' (row_description row)
         \<or> prefix ''Reverse foreign key relationship from '' (row_description row)"
    using kinds shared_row_shape(3) direct_row_shape(3) reverse_row_shape(3) by cases simp_all
  show "prefix ''Join through shared reference to '' (row_description row)" if "priority row < 90"
    using kinds
  proof cases
    case 1
    then show ?thesis using shared_row_shape(3) by simp
  next
    case 2
    then show ?thesis using direct_row_shape(2)[of inp l] that by auto
  next
    case 3
    then show ?thesis using reverse_row_shape(2)[of inp r] that by auto
  qed
qed

lemma allCandidates_iff:
  "c \<in> set (allCandidates db ex nt) \<longleftrightarrow>
     (\<exists>e \<in> set ex. \<exists>row \<in> set (join_query db (queryInputs e nt)).
        c = leftSuggestion row \<or> (90 \<le> priority row \<and> c = innerSuggestion row))"
  by (auto simp add: allCandidates_def pairCandidates_def set_rows_to_suggestions)

lemma join_query_rest:
  assumes "row \<in> set (join_query db inp)"
  obtains rest where "generated_sql row = ''LEFT JOIN '' @ rest"
  using join_query_shape(1)[OF assms] by blast

lemma innerSuggestion_expression:
  assumes "row \<in> set (join_query db inp)"
  shows "expression (innerSuggestion row) = ''INNER JOIN'' @ drop 9 (generated_sql row)"
proof -
  from assms obtain rest where r: "generated_sql row = ''LEFT JOIN '' @ rest"
    by (rule join_query_rest)
  show ?thesis unfolding innerSuggestion_def r by simp
qed

lemma row_innerVariant:
  assumes "row \<in> set (join_query db inp)"
  shows "innerVariant (leftSuggestion row) (innerSuggestion row)"
proof -
  from assms obtain rest where r: "generated_sql row = ''LEFT JOIN '' @ rest"
    by (rule join_query_rest)
  have "prefix ''LEFT JOIN'' (generated_sql row)" unfolding r by simp
  then show ?thesis
    using innerSuggestion_expression[OF assms]
    by (simp add: innerVariant_def sameJoinText_def leftSuggestion_def innerSuggestion_def)
qed

lemma candidate_left:
  assumes "c \<in> set (allCandidates db ex nt)" "joinType c = LEFT_JOIN"
  shows "\<exists>e \<in> set ex. \<exists>row \<in> set (join_query db (queryInputs e nt)). c = leftSuggestion row"
  using assms by (auto simp add: allCandidates_iff innerSuggestion_def)

lemma candidate_inner:
  assumes "c \<in> set (allCandidates db ex nt)" "joinType c = INNER_JOIN"
  shows "\<exists>e \<in> set ex. \<exists>row \<in> set (join_query db (queryInputs e nt)).
           90 \<le> priority row \<and> c = innerSuggestion row"
  using assms by (auto simp add: allCandidates_iff leftSuggestion_def)

lemma candidate_left_prefix:
  assumes "c \<in> set (allCandidates db ex nt)" "joinType c = LEFT_JOIN"
  shows "prefix ''LEFT JOIN'' (expression c)"
proof -
  from candidate_left[OF assms] obtain e row where
    row: "row \<in> set (join_query db (queryInputs e nt))" and c: "c = leftSuggestion row" by blast
  from row_innerVariant[OF row] show ?thesis using c by (simp add: innerVariant_def sameJoinText_def)
qed

lemma candidate_inner_origin:
  assumes "c \<in> set (allCandidates db ex nt)" "joinType c = INNER_JOIN"
  shows "\<exists>l \<in> set (allCandidates db ex nt). innerVariant l c \<and> 90 \<le> score l"
proof -
  from candidate_inner[OF assms] obtain e row where
    e: "e \<in> set ex" and row: "row \<in> set (join_query db (queryInputs e nt))"
    and p: "90 \<le> priority row" and c: "c = innerSuggestion row" by blast
  have "leftSuggestion row \<in> set (allCandidates db ex nt)"
    using e row allCandidates_iff by blast
  moreover have "innerVariant (leftSuggestion row) c" using row_innerVariant[OF row] c by simp
  moreover have "90 \<le> score (leftSuggestion row)" using p by (simp add: leftSuggestion_def)
  ultimately show ?thesis by blast
qed

lemma candidate_left_has_inner:
  assumes "l \<in> set (allCandidates db ex nt)" "joinType l = LEFT_JOIN" "90 \<le> score l"
  shows "\<exists>c \<in> set (allCandidates db ex nt). innerVariant l c"
proof -
  from candidate_left[OF assms(1,2)] obtain e row where
    e: "e \<in> set ex" and row: "row \<in> set (join_query db (queryInputs e nt))"
    and l: "l = leftSuggestion row" by blast
  have "90 \<le> priority row" using assms(3) l by (simp add: leftSuggestion_def)
  then have "innerSuggestion row \<in> set (allCandidates db ex nt)"
    using e row allCandidates_iff by blast
  then show ?thesis using row_innerVariant[OF row] l by blast
qed

section \<open>Scores, rationales and the INNER JOIN variants\<close>

lemma fkBased_left:
  assumes "row \<in> set (join_query db inp)"
  shows "fkBased (leftSuggestion row)"
  using join_query_shape(3)[OF assms] by (simp add: fkBased_def leftSuggestion_def)

lemma fkBased_inner:
  assumes "row \<in> set (join_query db inp)"
  shows "fkBased (innerSuggestion row)"
proof -
  let ?r = "replace ''Left join'' ''Inner join''"
  from join_query_shape(3)[OF assms] consider
    rest where "row_description row = ''Join through shared reference to '' @ rest"
    | rest where "row_description row = ''Direct foreign key relationship from '' @ rest"
    | rest where "row_description row = ''Reverse foreign key relationship from '' @ rest"
    unfolding prefix_def by blast
  then show ?thesis
  proof cases
    case 1
    have "prefix ''Join through shared reference to '' (?r (row_description row))"
      unfolding 1 replace_shared by simp
    then show ?thesis by (simp add: fkBased_def innerSuggestion_def)
  next
    case 2
    have "prefix ''Direct foreign key relationship from '' (?r (row_description row))"
      unfolding 2 replace_direct by simp
    then show ?thesis by (simp add: fkBased_def innerSuggestion_def)
  next
    case 3
    have "prefix ''Reverse foreign key relationship from '' (?r (row_description row))"
      unfolding 3 replace_reverse by simp
    then show ?thesis by (simp add: fkBased_def innerSuggestion_def)
  qed
qed

lemma candidate_scores:
  assumes "c \<in> set (allCandidates db ex nt)"
  shows "score c \<in> {85, 90, 95, 100, 105}"
    and "fkBased c"
    and "score c < 90 \<Longrightarrow> joinType c = LEFT_JOIN
           \<and> prefix ''Join through shared reference to '' (description c)"
proof -
  from assms obtain e row where row: "row \<in> set (join_query db (queryInputs e nt))"
    and c: "c = leftSuggestion row \<or> (90 \<le> priority row \<and> c = innerSuggestion row)"
    unfolding allCandidates_iff by blast
  have pr: "priority row \<in> {85, 90, 95, 100}" using row by (rule join_query_shape(2))
  show "score c \<in> {85, 90, 95, 100, 105}"
    using c pr by (auto simp add: leftSuggestion_def innerSuggestion_def)
  show "fkBased c" using c fkBased_left[OF row] fkBased_inner[OF row] by blast
  show "joinType c = LEFT_JOIN \<and> prefix ''Join through shared reference to '' (description c)"
    if "score c < 90"
  proof -
    have l: "c = leftSuggestion row" using c that by (auto simp add: innerSuggestion_def)
    then have "priority row < 90" using that by (simp add: leftSuggestion_def)
    then have "prefix ''Join through shared reference to '' (row_description row)"
      using join_query_shape(4)[OF row] by simp
    then show ?thesis using l by (simp add: leftSuggestion_def)
  qed
qed

lemma pairing_generic:
  assumes A: "\<And>c. c \<in> set C \<Longrightarrow> joinType c = LEFT_JOIN \<Longrightarrow> prefix ''LEFT JOIN'' (expression c)"
    and B: "\<And>c. c \<in> set C \<Longrightarrow> joinType c = INNER_JOIN \<Longrightarrow>
              \<exists>l \<in> set C. innerVariant l c \<and> 90 \<le> score l"
    and H: "\<And>l. l \<in> set C \<Longrightarrow> joinType l = LEFT_JOIN \<Longrightarrow> 90 \<le> score l \<Longrightarrow>
              \<exists>c \<in> set C. innerVariant l c"
    and D: "distinct (map expression out)"
    and S: "set out \<subseteq> set C"
    and K: "\<And>c. c \<in> set C \<Longrightarrow> \<exists>k \<in> set out. expression k = expression c \<and> score c \<le> score k"
  shows "(\<forall>l \<in> set out. joinType l = LEFT_JOIN \<and> 90 \<le> score l \<longrightarrow>
            (\<exists>c \<in> set out. innerVariant l c))
       \<and> (\<forall>l \<in> set out. joinType l = LEFT_JOIN \<and> score l < 90 \<longrightarrow>
            \<not> (\<exists>c \<in> set out. joinType c = INNER_JOIN \<and> sameJoinText l c))
       \<and> (\<forall>c \<in> set out. joinType c = INNER_JOIN \<longrightarrow>
            (\<exists>l \<in> set out. innerVariant l c \<and> 90 \<le> score l))"
proof -
  have uniq: "k = k'" if "k \<in> set out" "k' \<in> set out" "expression k = expression k'" for k k'
    using D that by (meson distinct_map inj_onD)
  have left_text: "expression l = expression l'"
    if "sameJoinText l c" "sameJoinText l' c" for l l' c
  proof -
    from that have "expression l = ''LEFT JOIN'' @ drop 9 (expression l)"
      and "expression l' = ''LEFT JOIN'' @ drop 9 (expression l')"
      and "drop 9 (expression l) = drop 9 (expression l')"
      by (auto simp add: sameJoinText_def prefix_def)
    then show ?thesis by metis
  qed
  have inner_prefix: "prefix ''INNER JOIN'' (expression c)"
    if "c \<in> set C" "joinType c = INNER_JOIN" for c
    using B[OF that] by (auto simp add: innerVariant_def sameJoinText_def)
  have same_type: "joinType k = joinType c"
    if "k \<in> set C" "c \<in> set C" "expression k = expression c" for k c
  proof (rule ccontr)
    assume "joinType k \<noteq> joinType c"
    then consider "joinType k = LEFT_JOIN" "joinType c = INNER_JOIN"
      | "joinType k = INNER_JOIN" "joinType c = LEFT_JOIN"
      by (cases "joinType k"; cases "joinType c") auto
    then show False
    proof cases
      case 1
      with A[OF that(1)] inner_prefix[OF that(2)] that(3) show False
        by (auto simp add: prefix_def)
    next
      case 2
      with A[OF that(2)] inner_prefix[OF that(1)] that(3) show False
        by (auto simp add: prefix_def)
    qed
  qed
  have bound: "score l' \<le> score l"
    if "l \<in> set out" "l' \<in> set C" "expression l' = expression l" for l l'
  proof -
    from K[OF that(2)] obtain k where "k \<in> set out" "expression k = expression l'"
      "score l' \<le> score k" by blast
    then show ?thesis using uniq[of k l] that by auto
  qed
  have part1: "\<exists>c \<in> set out. innerVariant l c"
    if l: "l \<in> set out" "joinType l = LEFT_JOIN" "90 \<le> score l" for l
  proof -
    have lC: "l \<in> set C" using l(1) S by blast
    from H[OF lC l(2,3)] obtain c where c: "c \<in> set C" "innerVariant l c" by blast
    from K[OF c(1)] obtain k where k: "k \<in> set out" "expression k = expression c"
      "score c \<le> score k" by blast
    have kC: "k \<in> set C" using k(1) S by blast
    have kt: "joinType k = INNER_JOIN"
      using same_type[OF kC c(1) k(2)] c(2) by (simp add: innerVariant_def)
    from B[OF kC kt] obtain l' where l': "l' \<in> set C" "innerVariant l' k" "90 \<le> score l'"
      by blast
    have st: "sameJoinText l k" using c(2) k(2) by (simp add: innerVariant_def sameJoinText_def)
    have "expression l' = expression l"
      using left_text[of l' k l] l'(2) st by (simp add: innerVariant_def)
    then have "score l' \<le> score l" using bound[OF l(1) l'(1)] by simp
    moreover have "score k = score l' + 5" using l'(2) by (simp add: innerVariant_def)
    moreover have "score c = score l + 5" using c(2) by (simp add: innerVariant_def)
    ultimately have "score k = score l + 5" using k(3) by simp
    then have "innerVariant l k" using l(2) kt st by (simp add: innerVariant_def)
    then show ?thesis using k(1) by blast
  qed
  have part2: False
    if l: "l \<in> set out" "joinType l = LEFT_JOIN" "score l < 90"
      and c: "c \<in> set out" "joinType c = INNER_JOIN" "sameJoinText l c" for l c
  proof -
    have cC: "c \<in> set C" using c(1) S by blast
    from B[OF cC c(2)] obtain l' where l': "l' \<in> set C" "innerVariant l' c" "90 \<le> score l'"
      by blast
    have "expression l' = expression l"
      using left_text[of l' c l] l'(2) c(3) by (simp add: innerVariant_def)
    then have "score l' \<le> score l" using bound[OF l(1) l'(1)] by simp
    then show False using l'(3) l(3) by simp
  qed
  have part3: "\<exists>l \<in> set out. innerVariant l c \<and> 90 \<le> score l"
    if c: "c \<in> set out" "joinType c = INNER_JOIN" for c
  proof -
    have cC: "c \<in> set C" using c(1) S by blast
    from B[OF cC c(2)] obtain l' where l': "l' \<in> set C" "innerVariant l' c" "90 \<le> score l'"
      by blast
    from K[OF l'(1)] obtain l where l: "l \<in> set out" "expression l = expression l'"
      "score l' \<le> score l" by blast
    have lC: "l \<in> set C" using l(1) S by blast
    have lt: "joinType l = LEFT_JOIN"
      using same_type[OF lC l'(1) l(2)] l'(2) by (simp add: innerVariant_def)
    have l90: "90 \<le> score l" using l(3) l'(3) by simp
    from part1[OF l(1) lt l90] obtain k where k: "k \<in> set out" "innerVariant l k" by blast
    have "expression k = expression c"
      using k(2) l'(2) l(2) by (simp add: innerVariant_def sameJoinText_def)
    then have "k = c" using uniq[OF k(1) c(1)] by simp
    then show ?thesis using k(2) l(1) l90 by blast
  qed
  show ?thesis using part1 part2 part3 by blast
qed

section \<open>Edges and the candidates they give\<close>

lemma position_sublist: "0 < position sub s \<longleftrightarrow> sublist sub s"
proof (induction s)
  case Nil
  show ?case by simp
next
  case (Cons c cs)
  show ?case
  proof (cases "prefix sub (c # cs)")
    case True
    then show ?thesis by (simp add: sublist_Cons_right)
  next
    case False
    then show ?thesis using Cons.IH
      by (cases "position sub cs") (simp_all add: sublist_Cons_right)
  qed
qed

lemma queryInputs_fields:
  "left_schema (queryInputs l r) = fst (parseTableName (tableName l))"
  "left_table (queryInputs l r) = snd (parseTableName (tableName l))"
  "left_alias (queryInputs l r) = alias l"
  "right_schema (queryInputs l r) = fst (parseTableName (tableName r))"
  "right_table (queryInputs l r) = snd (parseTableName (tableName r))"
  "right_alias (queryInputs l r) = alias r"
  by (simp_all add: queryInputs_def split: prod.splits)

lemma edgesOf_fk_rows:
  "edgesOf db t = fk_rows db (fst (parseTableName (tableName t))) (snd (parseTableName (tableName t)))"
  by (simp add: edgesOf_def split: prod.splits)

lemma fk_rows_member:
  assumes "e \<in> set (fk_rows db s t)"
  shows "table_schema e = s" and "table_name e = t"
    and "\<exists>tc \<in> set (table_constraints db). tc_table_schema tc = s \<and> tc_table_name tc = t"
    and "\<exists>ccu \<in> set (constraint_column_usage db).
           ccu_table_schema ccu = referenced_schema e \<and> ccu_table_name ccu = referenced_table e"
  using assms by (auto simp add: fk_rows_def split: if_splits)

lemma set_join_query:
  "set (join_query db inp)
   = set (case1 inp (fk_rows db (left_schema inp) (left_table inp))
                    (fk_rows db (right_schema inp) (right_table inp)))
     \<union> set (case2 inp (fk_rows db (left_schema inp) (left_table inp)))
     \<union> set (case3 inp (fk_rows db (right_schema inp) (right_table inp)))"
  by (simp add: join_query_def Let_def set_arrange Un_assoc)

lemma join_query_edges:
  "set (join_query db (queryInputs a b))
   = {shared_row (queryInputs a b) l r | l r.
        l \<in> set (edgesOf db a) \<and> r \<in> set (edgesOf db b) \<and> sameTarget l r}
     \<union> {direct_row (queryInputs a b) l | l. l \<in> set (edgesOf db a) \<and> targets l b}
     \<union> {reverse_row (queryInputs a b) r | r. r \<in> set (edgesOf db b) \<and> targets r a}"
  unfolding set_join_query
  by (auto simp add: case1_def case2_def case3_def queryInputs_fields edgesOf_fk_rows
      sameTarget_def targets_def prod_eq_iff)

lemma left_in_pair:
  "row \<in> set (join_query db (queryInputs a b)) \<Longrightarrow> leftSuggestion row \<in> set (pairCandidates db a b)"
  by (simp add: pairCandidates_def set_rows_to_suggestions)

lemma shared_in_pair:
  assumes "l \<in> set (edgesOf db a)" "r \<in> set (edgesOf db b)" "sameTarget l r"
  shows "sharedCandidate a b l r \<in> set (pairCandidates db a b)"
proof -
  have row: "shared_row (queryInputs a b) l r \<in> set (join_query db (queryInputs a b))"
    unfolding join_query_edges using assms by blast
  have rs: "table_schema r = fst (parseTableName (tableName b))"
    and rt: "table_name r = snd (parseTableName (tableName b))"
    using assms(2) fk_rows_member(1,2) unfolding edgesOf_fk_rows by blast+
  have "leftSuggestion (shared_row (queryInputs a b) l r) = sharedCandidate a b l r"
    by (simp add: leftSuggestion_def shared_row_def sharedCandidate_def queryInputs_fields
        rs rt position_sublist)
  then show ?thesis using left_in_pair[OF row] by simp
qed

lemma direct_in_pair:
  assumes "l \<in> set (edgesOf db a)" "targets l b"
  shows "directCandidate a b l \<in> set (pairCandidates db a b)"
proof -
  have row: "direct_row (queryInputs a b) l \<in> set (join_query db (queryInputs a b))"
    unfolding join_query_edges using assms by blast
  have rs: "referenced_schema l = fst (parseTableName (tableName b))"
    and rt: "referenced_table l = snd (parseTableName (tableName b))"
    using assms(2) by (simp_all add: targets_def prod_eq_iff)
  have "leftSuggestion (direct_row (queryInputs a b) l) = directCandidate a b l"
    by (simp add: leftSuggestion_def direct_row_def directCandidate_def queryInputs_fields
        rs rt position_sublist)
  then show ?thesis using left_in_pair[OF row] by simp
qed

lemma reverse_in_pair:
  assumes "r \<in> set (edgesOf db b)" "targets r a"
  shows "reverseCandidate a b r \<in> set (pairCandidates db a b)"
proof -
  have row: "reverse_row (queryInputs a b) r \<in> set (join_query db (queryInputs a b))"
    unfolding join_query_edges using assms by blast
  have rs: "referenced_schema r = fst (parseTableName (tableName a))"
    using assms(2) by (simp add: targets_def prod_eq_iff)
  have rt: "table_name r = snd (parseTableName (tableName b))"
    using assms(1) fk_rows_member(2) unfolding edgesOf_fk_rows by blast
  have "leftSuggestion (reverse_row (queryInputs a b) r) = reverseCandidate a b r"
    by (simp add: leftSuggestion_def reverse_row_def reverseCandidate_def queryInputs_fields
        rs rt position_sublist)
  then show ?thesis using left_in_pair[OF row] by simp
qed

lemma uniqueSuggestions_Nil: "uniqueSuggestions [] = []"
  by (simp add: uniqueSuggestions_def filterFirst_def sortByScore_def)

lemma missing_table_no_candidates:
  assumes "catalogConsistent db" "\<not> tableExists db (tableName b)"
  shows "pairCandidates db a b = []"
proof -
  have nb: "parseTableName (tableName b) \<notin> set (pg_tables db)"
    using assms(2) by (auto simp add: tableExists_def filter_empty_conv split: prod.splits)
  have src: "(tc_table_schema tc, tc_table_name tc) \<in> set (pg_tables db)"
    if "tc \<in> set (table_constraints db)" for tc
    using assms(1) that by (simp add: catalogConsistent_def list_all_iff)
  have tgt: "(ccu_table_schema ccu, ccu_table_name ccu) \<in> set (pg_tables db)"
    if "ccu \<in> set (constraint_column_usage db)" for ccu
    using assms(1) that by (simp add: catalogConsistent_def list_all_iff)
  have eb: "e \<notin> set (edgesOf db b)" for e
  proof
    assume "e \<in> set (edgesOf db b)"
    then obtain tc where "tc \<in> set (table_constraints db)"
      "tc_table_schema tc = fst (parseTableName (tableName b))"
      "tc_table_name tc = snd (parseTableName (tableName b))"
      using fk_rows_member(3) unfolding edgesOf_fk_rows by blast
    then show False using src[of tc] nb by simp
  qed
  have nt: "\<not> targets l b" if "l \<in> set (edgesOf db a)" for l
  proof
    assume t: "targets l b"
    from that obtain ccu where "ccu \<in> set (constraint_column_usage db)"
      "ccu_table_schema ccu = referenced_schema l" "ccu_table_name ccu = referenced_table l"
      using fk_rows_member(4) unfolding edgesOf_fk_rows by blast
    then show False using tgt[of ccu] nb t by (simp add: targets_def)
  qed
  have "set (join_query db (queryInputs a b)) = {}"
    unfolding join_query_edges using eb nt by blast
  then show ?thesis by (simp add: pairCandidates_def)
qed

lemma allCandidates_member:
  "e \<in> set ex \<Longrightarrow> c \<in> set (pairCandidates db e nt) \<Longrightarrow> c \<in> set (allCandidates db ex nt)"
  by (auto simp add: allCandidates_def)

lemma returned_covers:
  assumes "suggestJoinExpressions p ex nt st = (Inr out, st')"
    and "c \<in> set (allCandidates (catalog p) ex nt)"
  shows "\<exists>k \<in> set out. expression k = expression c \<and> score c \<le> score k"
proof -
  have "out = uniqueSuggestions (allCandidates (catalog p) ex nt)"
    using assms(1) by (rule suggest_Inr)
  then show ?thesis using unique_covers[OF assms(2)] by simp
qed

section \<open>Catalogs whose constraint names are unique\<close>

text \<open>
  When the views list the foreign keys of a database and no two keys share a name, the CTE
  of a table holds exactly the edges of its keys, and two tables without a relationship
  get no candidate.
\<close>

lemma derived_fk_rows:
  assumes tc: "table_constraints db = map tcOf keys"
    and kcu: "key_column_usage db = map kcuOf keys"
    and ccu: "constraint_column_usage db = map ccuOf keys"
    and d: "distinct (map fk_name keys)"
  shows "set (fk_rows db s t) = edgeOf ` {k \<in> set keys. fk_schema k = s \<and> fk_table k = t}"
proof -
  have inj: "k = k'" if "k \<in> set keys" "k' \<in> set keys" "fk_name k = fk_name k'" for k k'
    using d that by (meson distinct_map inj_onD)
  show ?thesis
  proof (intro set_eqI iffI)
    fix e
    assume "e \<in> set (fk_rows db s t)"
    then obtain k1 k2 k3 where k: "k1 \<in> set keys" "k2 \<in> set keys" "k3 \<in> set keys"
      and n: "fk_name k1 = fk_name k2" "fk_name k3 = fk_name k1"
      and st: "fk_schema k1 = s" "fk_table k1 = t"
      and e: "e = \<lparr>table_schema = fk_schema k1, table_name = fk_table k1,
                   column_name = fk_column k2,
                   referenced_schema = fk_ref_schema k3, referenced_table = fk_ref_table k3,
                   referenced_column = fk_ref_column k3, constraint_name = fk_name k1\<rparr>"
      unfolding fk_rows_def tc kcu ccu
      by (auto simp add: tcOf_def kcuOf_def ccuOf_def split: if_splits)
    have "k2 = k1" "k3 = k1" using inj k n by auto
    then have "e = edgeOf k1" using e by (simp add: edgeOf_def)
    then show "e \<in> edgeOf ` {k \<in> set keys. fk_schema k = s \<and> fk_table k = t}"
      using k(1) st by blast
  next
    fix e
    assume "e \<in> edgeOf ` {k \<in> set keys. fk_schema k = s \<and> fk_table k = t}"
    then obtain k where k: "k \<in> set keys" "fk_schema k = s" "fk_table k = t" "e = edgeOf k"
      by blast
    then show "e \<in> set (fk_rows db s t)"
      unfolding fk_rows_def tc kcu ccu
      by (auto simp add: tcOf_def kcuOf_def ccuOf_def edgeOf_def intro!: bexI[of _ k])
  qed
qed

lemma unique_names_no_relationship:
  assumes tc: "table_constraints db = map tcOf keys"
    and kcu: "key_column_usage db = map kcuOf keys"
    and ccu: "constraint_column_usage db = map ccuOf keys"
    and d: "distinct (map fk_name keys)"
    and n: "noRelationship keys a b"
  shows "pairCandidates db a b = []"
proof -
  have ea: "set (edgesOf db a) = edgeOf ` set (keysOf keys a)"
    unfolding edgesOf_fk_rows derived_fk_rows[OF tc kcu ccu d]
    by (auto simp add: keysOf_def prod_eq_iff)
  have eb: "set (edgesOf db b) = edgeOf ` set (keysOf keys b)"
    unfolding edgesOf_fk_rows derived_fk_rows[OF tc kcu ccu d]
    by (auto simp add: keysOf_def prod_eq_iff)
  have t: "targets (edgeOf k) x = references k x" for k x
    by (simp add: targets_def references_def edgeOf_def)
  have st: "sameTarget (edgeOf k) (edgeOf k') = sameReference k k'" for k k'
    by (simp add: sameTarget_def sameReference_def edgeOf_def)
  have "set (join_query db (queryInputs a b)) = {}"
    unfolding join_query_edges ea eb using n
    by (auto simp add: noRelationship_def list_all_iff t st)
  then show ?thesis by (simp add: pairCandidates_def)
qed

section \<open>The claims\<close>

text \<open>
  C10. With an empty list of existing tables the call succeeds with an empty list of
  suggestions, whatever the new table is; the pool state is unchanged (no client acquired,
  no query sent), also when the pool would reject every connection, so the existence of
  the new table is never looked at.
\<close>

theorem empty_existing_tables:
  "suggestJoinExpressions p [] newTable st = (Inr [], st)"
  by (simp add: suggestJoinExpressions_def uniqueSuggestions_def filterFirst_def sortByScore_def)

theorem empty_existing_tables_witness:
  "suggestJoinExpressions \<lparr>catalog = shop, connect_ok = False, query_ok = False\<rparr> []
     (tableRef ''nope'' ''n'') idle = (Inr [], idle)
   \<and> \<not> tableExists shop ''nope''"
proof -
  have "\<not> tableExists shop ''nope''" by code_simp
  then show ?thesis
    using empty_existing_tables[of "\<lparr>catalog = shop, connect_ok = False, query_ok = False\<rparr>"
        "tableRef ''nope'' ''n''" idle]
    by simp
qed

text \<open>
  C4. Whenever the call returns a list: no two elements have the same expression; scores
  descend along the list; elements of equal score keep the order they have among the
  generated candidates; every element is a generated candidate; and for every generated
  candidate the list holds an element with the same expression and a score at least as
  high, so the element kept for an expression is a highest-scoring one.
\<close>

theorem returned_list_ranked:
  assumes "suggestJoinExpressions p existingTables newTable st = (Inr out, st')"
  shows "distinct (map expression out)
    \<and> sorted_wrt (\<lambda>a b. score b \<le> score a) out
    \<and> (\<forall>k. subseq (filter (\<lambda>s. score s = k) out)
              (filter (\<lambda>s. score s = k) (allCandidates (catalog p) existingTables newTable)))
    \<and> set out \<subseteq> set (allCandidates (catalog p) existingTables newTable)
    \<and> (\<forall>c \<in> set (allCandidates (catalog p) existingTables newTable).
          \<exists>k \<in> set out. expression k = expression c \<and> score c \<le> score k)"
proof -
  have out: "out = uniqueSuggestions (allCandidates (catalog p) existingTables newTable)"
    using assms by (rule suggest_Inr)
  show ?thesis
    unfolding out
    using unique_distinct unique_sorted unique_stable unique_set unique_covers by blast
qed

theorem returned_list_ranked_witness:
  "suggestJoinExpressions (online shop) [tableRef ''users'' ''u'', tableRef ''users'' ''u'']
     (tableRef ''orders'' ''o'') idle = (Inr usersOrdersRanked, twoQueries)
   \<and> length (allCandidates shop [tableRef ''users'' ''u'', tableRef ''users'' ''u'']
               (tableRef ''orders'' ''o'')) = 4
   \<and> distinct (map expression usersOrdersRanked)
   \<and> sorted_wrt (\<lambda>a b. score b \<le> score a) usersOrdersRanked"
proof -
  have run: "suggestJoinExpressions (online shop)
      [tableRef ''users'' ''u'', tableRef ''users'' ''u''] (tableRef ''orders'' ''o'') idle
      = (Inr usersOrdersRanked, twoQueries)"
    by code_simp
  have len: "length (allCandidates shop [tableRef ''users'' ''u'', tableRef ''users'' ''u'']
               (tableRef ''orders'' ''o'')) = 4"
    by code_simp
  show ?thesis using run len returned_list_ranked[OF run] by blast
qed

text \<open>
  C9 (as the code has it). An identifier with exactly one \<open>.\<close> is cut there into schema
  and table; every other identifier, with no \<open>.\<close> or with two or more, is taken whole as
  the table name, in schema \<open>public\<close>. Both the schema lookup (\<open>tableExists\<close>) and the join
  inference (\<open>queryInputs\<close>) read the identifier through \<open>parseTableName\<close>.
\<close>

theorem parseTableName_cases:
  "parseTableName name =
     (if count_list name (CHR ''.'') = 1
      then (takeWhile (\<lambda>c. c \<noteq> CHR ''.'') name, tl (dropWhile (\<lambda>c. c \<noteq> CHR ''.'') name))
      else (''public'', name))"
proof (cases "count_list name (CHR ''.'') = 1")
  case True
  let ?a = "takeWhile (\<lambda>c. c \<noteq> CHR ''.'') name"
  let ?b = "tl (dropWhile (\<lambda>c. c \<noteq> CHR ''.'') name)"
  from count_one_decompose[OF True]
  have d: "name = ?a @ CHR ''.'' # ?b" and a: "CHR ''.'' \<notin> set ?a" and b: "CHR ''.'' \<notin> set ?b"
    by blast+
  have "split (CHR ''.'') (?a @ CHR ''.'' # ?b) = [?a, ?b]"
    using a b by (simp add: split_at_first split_no_sep)
  then have "split (CHR ''.'') name = [?a, ?b]" using d by simp
  then show ?thesis using True by (simp add: parseTableName_def)
next
  case False
  then have "length (split (CHR ''.'') name) \<noteq> 2" by (simp add: length_split)
  then show ?thesis using False by (simp add: parseTableName_def)
qed

theorem parseTableName_cases_witness:
  "parseTableName ''sales.orders'' = (''sales'', ''orders'')
   \<and> parseTableName ''orders'' = (''public'', ''orders'')
   \<and> parseTableName ''a.b.c'' = (''public'', ''a.b.c'')"
  using parseTableName_cases[of "''sales.orders''"] parseTableName_cases[of "''orders''"]
    parseTableName_cases[of "''a.b.c''"]
  by simp

text \<open>
  C9 as stated fails: an identifier with two separators is not cut at the first one.
\<close>

theorem three_parts_counterexample:
  "parseTableName ''a.b.c'' = (''public'', ''a.b.c'') \<and> parseTableName ''a.b.c'' \<noteq> (''a'', ''b.c'')"
  by code_simp

text \<open>
  C8 (as the code has it). Every score of a returned list is one of 85, 90, 95, 100, 105,
  hence an integer between 0 and 105 and never below 50. Every rationale names one of the
  three foreign-key rules: no suggestion comes from a naming convention or a common
  column name. A score between 70 and 89 is produced: it is 85, and it belongs to a
  LEFT JOIN through a shared reference.
\<close>

theorem scores_produced:
  assumes "suggestJoinExpressions p existingTables newTable st = (Inr out, st')"
    and "s \<in> set out"
  shows "score s \<in> {85, 90, 95, 100, 105}
    \<and> 0 \<le> score s \<and> score s \<le> 105
    \<and> \<not> score s < 50
    \<and> fkBased s
    \<and> (70 \<le> score s \<and> score s \<le> 89 \<longrightarrow>
         score s = 85 \<and> joinType s = LEFT_JOIN
         \<and> prefix ''Join through shared reference to '' (description s))"
proof -
  have "out = uniqueSuggestions (allCandidates (catalog p) existingTables newTable)"
    using assms(1) by (rule suggest_Inr)
  then have c: "s \<in> set (allCandidates (catalog p) existingTables newTable)"
    using assms(2) unique_set by blast
  have sc: "score s \<in> {85, 90, 95, 100, 105}" using c by (rule candidate_scores(1))
  have fk: "fkBased s" using c by (rule candidate_scores(2))
  have low: "score s < 90 \<Longrightarrow> joinType s = LEFT_JOIN
      \<and> prefix ''Join through shared reference to '' (description s)"
    using c by (rule candidate_scores(3))
  show ?thesis using sc fk low by auto
qed

theorem scores_produced_witness:
  "suggestJoinExpressions (online shop) [tableRef ''users'' ''u'', tableRef ''orders'' ''o'']
     (tableRef ''order_items'' ''oi'') idle = (Inr orderItemsRanked, orderItemsQueries)
   \<and> sharedUsers \<in> set orderItemsRanked
   \<and> score sharedUsers = 85 \<and> joinType sharedUsers = LEFT_JOIN \<and> fkBased sharedUsers"
proof -
  have run: "suggestJoinExpressions (online shop)
      [tableRef ''users'' ''u'', tableRef ''orders'' ''o''] (tableRef ''order_items'' ''oi'') idle
      = (Inr orderItemsRanked, orderItemsQueries)"
    by code_simp
  have mem: "sharedUsers \<in> set orderItemsRanked" by (simp add: orderItemsRanked_def)
  have "70 \<le> score sharedUsers \<and> score sharedUsers \<le> 89" by (simp add: sharedUsers_def)
  then show ?thesis using run mem scores_produced[OF run mem] by blast
qed

text \<open>
  C8 as stated fails: the list returned for \<open>order_items oi\<close> ends with a suggestion
  scored 85, inside the band from 70 to 89.
\<close>

theorem band_produced_counterexample:
  "fst (suggestJoinExpressions (online shop) [tableRef ''users'' ''u'', tableRef ''orders'' ''o'']
          (tableRef ''order_items'' ''oi'') idle) = Inr orderItemsRanked
   \<and> orderItemsRanked ! 4 = sharedUsers
   \<and> score sharedUsers = 85
   \<and> 70 \<le> score sharedUsers \<and> score sharedUsers \<le> 89"
  by code_simp

text \<open>
  C5. In a returned list, every LEFT JOIN suggestion scored 90 or more has an INNER JOIN
  suggestion with the same text after the keyword and a score exactly 5 higher; a
  LEFT JOIN suggestion scored below 90 has no INNER JOIN suggestion with its text; and
  every INNER JOIN suggestion is the variant of a LEFT JOIN suggestion of the list scored
  90 or more.
\<close>

theorem inner_left_pairing:
  assumes "suggestJoinExpressions p existingTables newTable st = (Inr out, st')"
  shows "(\<forall>l \<in> set out. joinType l = LEFT_JOIN \<and> 90 \<le> score l \<longrightarrow>
            (\<exists>c \<in> set out. innerVariant l c))
       \<and> (\<forall>l \<in> set out. joinType l = LEFT_JOIN \<and> score l < 90 \<longrightarrow>
            \<not> (\<exists>c \<in> set out. joinType c = INNER_JOIN \<and> sameJoinText l c))
       \<and> (\<forall>c \<in> set out. joinType c = INNER_JOIN \<longrightarrow>
            (\<exists>l \<in> set out. innerVariant l c \<and> 90 \<le> score l))"
proof -
  let ?C = "allCandidates (catalog p) existingTables newTable"
  have out: "out = uniqueSuggestions ?C" using assms by (rule suggest_Inr)
  show ?thesis
  proof (rule pairing_generic[where C = "?C"])
    show "prefix ''LEFT JOIN'' (expression c)" if "c \<in> set ?C" "joinType c = LEFT_JOIN" for c
      using that by (rule candidate_left_prefix)
    show "\<exists>l \<in> set ?C. innerVariant l c \<and> 90 \<le> score l"
      if "c \<in> set ?C" "joinType c = INNER_JOIN" for c
      using that by (rule candidate_inner_origin)
    show "\<exists>c \<in> set ?C. innerVariant l c"
      if "l \<in> set ?C" "joinType l = LEFT_JOIN" "90 \<le> score l" for l
      using that by (rule candidate_left_has_inner)
    show "distinct (map expression out)" unfolding out by (rule unique_distinct)
    show "set out \<subseteq> set ?C" unfolding out by (rule unique_set)
    show "\<exists>k \<in> set out. expression k = expression c \<and> score c \<le> score k"
      if "c \<in> set ?C" for c
      unfolding out using that by (rule unique_covers)
  qed
qed

theorem inner_left_pairing_witness:
  "suggestJoinExpressions (online shop) [tableRef ''users'' ''u'', tableRef ''orders'' ''o'']
     (tableRef ''order_items'' ''oi'') idle = (Inr orderItemsRanked, orderItemsQueries)
   \<and> innerVariant (orderItemsRanked ! 2) (orderItemsRanked ! 0)
   \<and> innerVariant (orderItemsRanked ! 3) (orderItemsRanked ! 1)
   \<and> length (filter (\<lambda>s. joinType s = INNER_JOIN) orderItemsRanked) = 2
   \<and> score (orderItemsRanked ! 4) = 85"
proof -
  have run: "suggestJoinExpressions (online shop)
      [tableRef ''users'' ''u'', tableRef ''orders'' ''o''] (tableRef ''order_items'' ''oi'') idle
      = (Inr orderItemsRanked, orderItemsQueries)"
    by code_simp
  have "innerVariant (orderItemsRanked ! 2) (orderItemsRanked ! 0)"
    and "innerVariant (orderItemsRanked ! 3) (orderItemsRanked ! 1)"
    and "length (filter (\<lambda>s. joinType s = INNER_JOIN) orderItemsRanked) = 2"
    and "score (orderItemsRanked ! 4) = 85"
    by code_simp+
  then show ?thesis using run inner_left_pairing[OF run] by blast
qed

text \<open>
  C7 at a failing input. In \<open>collide\<close> the table \<open>t1\<close> references \<open>p\<close> only and nothing
  references \<open>t1\<close> or is referenced together with it, so \<open>t1\<close> and \<open>q\<close> have no
  relationship; but the constraint of \<open>t1\<close> shares its name with the constraint from
  \<open>t2\<close> to \<open>q\<close>, the query joins the views on the name alone, and the call returns four
  suggestions that announce a direct foreign key from \<open>t1\<close> to \<open>q\<close>.
\<close>

theorem colliding_names_evaluated:
  "noRelationship collideKeys (tableRef ''t1'' ''a'') (tableRef ''q'' ''b'')
   \<and> keysOf collideKeys (tableRef ''q'' ''b'') = []
   \<and> map fk_ref_table (keysOf collideKeys (tableRef ''t1'' ''a'')) = [''p'']
   \<and> suggestJoinExpressions (online collide) [tableRef ''t1'' ''a''] (tableRef ''q'' ''b'') idle
       = (Inr collideRanked,
          \<lparr>acquired = 1, released = 1,
           queries = [[''public'', ''t1'', ''a'', ''public'', ''q'', ''b'']]\<rparr>)"
  by code_simp

text \<open>
  C1 (as the code has it). No table is looked up before the query is sent: when the pool
  answers, the call succeeds whatever the new table is, and in a consistent catalog a new
  table that does not exist gives the empty list.
\<close>

theorem missing_table_succeeds:
  assumes "connect_ok p" "query_ok p"
  shows "(\<exists>out. fst (suggestJoinExpressions p existingTables newTable st) = Inr out)
       \<and> (catalogConsistent (catalog p) \<and> \<not> tableExists (catalog p) (tableName newTable)
            \<longrightarrow> fst (suggestJoinExpressions p existingTables newTable st) = Inr [])"
proof -
  have r: "fst (suggestJoinExpressions p existingTables newTable st)
           = Inr (uniqueSuggestions (allCandidates (catalog p) existingTables newTable))"
    using assms by (rule suggest_online)
  have "allCandidates (catalog p) existingTables newTable = []"
    if "catalogConsistent (catalog p)" "\<not> tableExists (catalog p) (tableName newTable)"
    using missing_table_no_candidates[OF that] by (simp add: allCandidates_def)
  then show ?thesis using r by (auto simp add: uniqueSuggestions_Nil)
qed

theorem missing_table_succeeds_witness:
  "connect_ok (online shop) \<and> query_ok (online shop)
   \<and> catalogConsistent shop \<and> \<not> tableExists shop ''ghost''
   \<and> fst (suggestJoinExpressions (online shop) [tableRef ''users'' ''u'', tableRef ''orders'' ''o'']
            (tableRef ''ghost'' ''g'') idle) = Inr []"
proof -
  have c: "connect_ok (online shop)" and q: "query_ok (online shop)"
    by (simp_all add: online_def)
  have cc: "catalogConsistent shop" by code_simp
  have nx: "\<not> tableExists shop ''ghost''" by code_simp
  have cat: "catalog (online shop) = shop" by (simp add: online_def)
  show ?thesis
    using c q cc nx
      missing_table_succeeds[OF c q, of "[tableRef ''users'' ''u'', tableRef ''orders'' ''o'']"
        "tableRef ''ghost'' ''g''" idle]
    unfolding cat by (simp add: tableRef_def)
qed

text \<open>
  C1 as stated fails: \<open>ghost\<close> is not a table of \<open>shop\<close>, and the call returns the empty
  list after one query.
\<close>

theorem missing_table_counterexample:
  "\<not> tableExists shop ''ghost''
   \<and> suggestJoinExpressions (online shop) [tableRef ''orders'' ''o''] (tableRef ''ghost'' ''g'') idle
     = (Inr [],
        \<lparr>acquired = 1, released = 1,
         queries = [[''public'', ''orders'', ''o'', ''public'', ''ghost'', ''g'']]\<rparr>)"
  by code_simp

text \<open>
  C2 at a failing input. \<open>orders.user_id\<close> references \<open>users.id\<close>; joining the new table
  \<open>orders o\<close> to the existing \<open>users u\<close>, the query renders \<open>orders\<close> under the alias
  \<open>u\<close> of the existing table, not under its own alias \<open>o\<close>.
\<close>

theorem reverse_alias_evaluated:
  "map expression (pairCandidates shop (tableRef ''users'' ''u'') (tableRef ''orders'' ''o''))
     = [''LEFT JOIN orders u ON o.user_id = u.id'', ''INNER JOIN orders u ON o.user_id = u.id'']
   \<and> fst (suggestJoinExpressions (online shop) [tableRef ''users'' ''u'']
            (tableRef ''orders'' ''o'') idle) = Inr usersOrdersRanked
   \<and> alias (tableRef ''orders'' ''o'') = ''o''"
  by code_simp

text \<open>
  C3 (as the code has it). For an existing table of the call, one of its edges and an edge
  of the new table that point at the same schema, table and column, the candidates hold
  the LEFT JOIN that brings in the new table, under its schema when that is not
  \<open>public\<close> and followed by its alias unless equal to its name, joined on the two
  referencing columns, scored 90 when either column contains the alias of its own table
  and 85 otherwise; the returned list holds a suggestion with that expression and a score
  at least as high.
\<close>

theorem shared_reference_candidate:
  assumes "suggestJoinExpressions p existingTables newTable st = (Inr out, st')"
    and "existingTable \<in> set existingTables"
    and "l \<in> set (edgesOf (catalog p) existingTable)"
    and "r \<in> set (edgesOf (catalog p) newTable)"
    and "sameTarget l r"
  shows "sharedCandidate existingTable newTable l r
           \<in> set (allCandidates (catalog p) existingTables newTable)
       \<and> (\<exists>k \<in> set out.
             expression k = expression (sharedCandidate existingTable newTable l r)
             \<and> score (sharedCandidate existingTable newTable l r) \<le> score k)"
proof -
  have "sharedCandidate existingTable newTable l r
          \<in> set (pairCandidates (catalog p) existingTable newTable)"
    using assms(3,4,5) by (rule shared_in_pair)
  then have c: "sharedCandidate existingTable newTable l r
          \<in> set (allCandidates (catalog p) existingTables newTable)"
    using assms(2) allCandidates_member by blast
  then show ?thesis using returned_covers[OF assms(1)] by blast
qed

theorem shared_reference_candidate_witness:
  "suggestJoinExpressions (online shop) [tableRef ''users'' ''u'', tableRef ''orders'' ''o'']
     (tableRef ''order_items'' ''oi'') idle = (Inr orderItemsRanked, orderItemsQueries)
   \<and> orderUser \<in> set (edgesOf shop (tableRef ''orders'' ''o''))
   \<and> itemUser \<in> set (edgesOf shop (tableRef ''order_items'' ''oi''))
   \<and> sameTarget orderUser itemUser
   \<and> sharedCandidate (tableRef ''orders'' ''o'') (tableRef ''order_items'' ''oi'')
        orderUser itemUser = sharedUsers
   \<and> sharedUsers \<in> set (allCandidates shop [tableRef ''users'' ''u'', tableRef ''orders'' ''o'']
                           (tableRef ''order_items'' ''oi''))"
proof -
  have run: "suggestJoinExpressions (online shop)
      [tableRef ''users'' ''u'', tableRef ''orders'' ''o''] (tableRef ''order_items'' ''oi'') idle
      = (Inr orderItemsRanked, orderItemsQueries)"
    by code_simp
  have mem: "tableRef ''orders'' ''o'' \<in> set [tableRef ''users'' ''u'', tableRef ''orders'' ''o'']"
    by simp
  have l: "orderUser \<in> set (edgesOf (catalog (online shop)) (tableRef ''orders'' ''o''))"
    by code_simp
  have r: "itemUser \<in> set (edgesOf (catalog (online shop)) (tableRef ''order_items'' ''oi''))"
    by code_simp
  have t: "sameTarget orderUser itemUser" by code_simp
  have eq: "sharedCandidate (tableRef ''orders'' ''o'') (tableRef ''order_items'' ''oi'')
        orderUser itemUser = sharedUsers"
    by code_simp
  have cat: "catalog (online shop) = shop" by (simp add: online_def)
  show ?thesis
    using run l r t eq shared_reference_candidate[OF run mem l r t]
    unfolding cat by simp
qed

text \<open>
  C3 as stated fails: \<open>orders\<close> and \<open>order_items\<close> both reference \<open>users.id\<close>, and every
  candidate of the pair brings in \<open>order_items\<close>, none the referenced table \<open>users\<close>.
\<close>

theorem shared_brings_new_table_counterexample:
  "orderUser \<in> set (edgesOf shop (tableRef ''orders'' ''o''))
   \<and> itemUser \<in> set (edgesOf shop (tableRef ''order_items'' ''oi''))
   \<and> sameTarget orderUser itemUser
   \<and> referenced_table orderUser = ''users''
   \<and> map expression (pairCandidates shop (tableRef ''orders'' ''o'') (tableRef ''order_items'' ''oi''))
       = [''LEFT JOIN order_items o ON oi.order_id = o.id'',
          ''INNER JOIN order_items o ON oi.order_id = o.id'',
          ''LEFT JOIN order_items oi ON o.user_id = oi.user_id'']"
  by code_simp

text \<open>
  C6 (as the code has it). When an edge of \<open>A\<close> points at \<open>B\<close> and both calls return, the
  candidates of \<open>suggestJoins([A], B)\<close> hold the direct suggestion and those of
  \<open>suggestJoins([B], A)\<close> the reverse suggestion of that edge; both end with the name of
  its constraint and have the same score, 100 when the source column contains the alias of
  \<open>B\<close> and 95 otherwise; each returned list holds a suggestion with the expression of its
  candidate and a score at least as high.
\<close>

theorem direct_reverse_symmetry:
  assumes "suggestJoinExpressions p [A] B st = (Inr out1, st1)"
    and "suggestJoinExpressions p [B] A st = (Inr out2, st2)"
    and "e \<in> set (edgesOf (catalog p) A)"
    and "targets e B"
  shows "directCandidate A B e \<in> set (allCandidates (catalog p) [A] B)
       \<and> reverseCandidate B A e \<in> set (allCandidates (catalog p) [B] A)
       \<and> score (directCandidate A B e) = score (reverseCandidate B A e)
       \<and> score (directCandidate A B e) = (if sublist (alias B) (column_name e) then 100 else 95)
       \<and> suffix ('' (FK: '' @ constraint_name e @ '')'') (description (directCandidate A B e))
       \<and> suffix ('' (FK: '' @ constraint_name e @ '')'') (description (reverseCandidate B A e))
       \<and> (\<exists>k \<in> set out1. expression k = expression (directCandidate A B e)
                           \<and> score (directCandidate A B e) \<le> score k)
       \<and> (\<exists>k \<in> set out2. expression k = expression (reverseCandidate B A e)
                           \<and> score (reverseCandidate B A e) \<le> score k)"
proof -
  have d: "directCandidate A B e \<in> set (allCandidates (catalog p) [A] B)"
    using direct_in_pair[OF assms(3,4)] by (simp add: allCandidates_def)
  have r: "reverseCandidate B A e \<in> set (allCandidates (catalog p) [B] A)"
    using reverse_in_pair[OF assms(3,4)] by (simp add: allCandidates_def)
  have s1: "score (directCandidate A B e) = (if sublist (alias B) (column_name e) then 100 else 95)"
    by (simp add: directCandidate_def)
  have s2: "score (reverseCandidate B A e) = (if sublist (alias B) (column_name e) then 100 else 95)"
    by (simp add: reverseCandidate_def)
  have f1: "suffix ('' (FK: '' @ constraint_name e @ '')'') (description (directCandidate A B e))"
    unfolding directCandidate_def suffix_def by simp
  have f2: "suffix ('' (FK: '' @ constraint_name e @ '')'') (description (reverseCandidate B A e))"
    unfolding reverseCandidate_def suffix_def by simp
  show ?thesis
    using d r s1 s2 f1 f2 returned_covers[OF assms(1) d] returned_covers[OF assms(2) r]
    by simp
qed

theorem direct_reverse_symmetry_witness:
  "suggestJoinExpressions (online shop) [tableRef ''orders'' ''o''] (tableRef ''users'' ''u'') idle
     = (Inr ordersUsersRanked,
        \<lparr>acquired = 1, released = 1,
         queries = [[''public'', ''orders'', ''o'', ''public'', ''users'', ''u'']]\<rparr>)
   \<and> suggestJoinExpressions (online shop) [tableRef ''users'' ''u''] (tableRef ''orders'' ''o'') idle
     = (Inr usersOrdersRanked,
        \<lparr>acquired = 1, released = 1,
         queries = [[''public'', ''users'', ''u'', ''public'', ''orders'', ''o'']]\<rparr>)
   \<and> orderUser \<in> set (edgesOf shop (tableRef ''orders'' ''o''))
   \<and> targets orderUser (tableRef ''users'' ''u'')
   \<and> directCandidate (tableRef ''orders'' ''o'') (tableRef ''users'' ''u'') orderUser
       = ordersUsersRanked ! 1
   \<and> reverseCandidate (tableRef ''users'' ''u'') (tableRef ''orders'' ''o'') orderUser
       = usersOrdersRanked ! 1
   \<and> score (ordersUsersRanked ! 1) = score (usersOrdersRanked ! 1)"
proof -
  have run1: "suggestJoinExpressions (online shop) [tableRef ''orders'' ''o'']
      (tableRef ''users'' ''u'') idle
     = (Inr ordersUsersRanked,
        \<lparr>acquired = 1, released = 1,
         queries = [[''public'', ''orders'', ''o'', ''public'', ''users'', ''u'']]\<rparr>)"
    by code_simp
  have run2: "suggestJoinExpressions (online shop) [tableRef ''users'' ''u'']
      (tableRef ''orders'' ''o'') idle
     = (Inr usersOrdersRanked,
        \<lparr>acquired = 1, released = 1,
         queries = [[''public'', ''users'', ''u'', ''public'', ''orders'', ''o'']]\<rparr>)"
    by code_simp
  have e: "orderUser \<in> set (edgesOf (catalog (online shop)) (tableRef ''orders'' ''o''))"
    by code_simp
  have t: "targets orderUser (tableRef ''users'' ''u'')" by code_simp
  have d: "directCandidate (tableRef ''orders'' ''o'') (tableRef ''users'' ''u'') orderUser
       = ordersUsersRanked ! 1"
    by code_simp
  have r: "reverseCandidate (tableRef ''users'' ''u'') (tableRef ''orders'' ''o'') orderUser
       = usersOrdersRanked ! 1"
    by code_simp
  have cat: "catalog (online shop) = shop" by (simp add: online_def)
  show ?thesis
    using run1 run2 e t d r direct_reverse_symmetry[OF run1 run2 e t]
    unfolding cat by simp
qed

text \<open>
  C6 as stated fails: in \<open>mutual\<close>, \<open>a\<close> references \<open>b\<close> by the constraint \<open>a_b\<close>; with
  the alias \<open>t\<close> for both tables, the list returned for \<open>suggestJoins([b], a)\<close> holds no
  reverse suggestion and does not name \<open>a_b\<close>.
\<close>

theorem same_alias_counterexample:
  "aToB \<in> set (edgesOf mutual (tableRef ''a'' ''t''))
   \<and> targets aToB (tableRef ''b'' ''t'')
   \<and> fst (suggestJoinExpressions (online mutual) [tableRef ''a'' ''t''] (tableRef ''b'' ''t'') idle)
       = Inr mutualAB
   \<and> fst (suggestJoinExpressions (online mutual) [tableRef ''b'' ''t''] (tableRef ''a'' ''t'') idle)
       = Inr mutualBA
   \<and> map description mutualBA
       = [''Direct foreign key relationship from b to a (FK: b_a)'',
          ''Direct foreign key relationship from b to a (FK: b_a)'']"
  by code_simp

end
